theory Spec2Isabelle
  imports Main "HOL-Library.Word" "HOL-Library.Multiset" "HOL-Library.Monad_Syntax"
begin

section \<open>The comment section of the post detail page\<close>

text \<open>
  The post detail page (\<^verbatim>\<open>DetailPage\<close>) fetches one page of top-level comments, the
  direct replies to them and the replies to those replies, joins author profiles in and
  builds, for every top-level comment, one flat reply list. This theory embeds that
  assembly (the tail of \<^verbatim>\<open>fetchComments\<close>), the comment view (\<^verbatim>\<open>CommentBlock\<close>) and the
  handlers for submitting and liking comments, and proves the properties the
  specification states about them.
\<close>

subsection \<open>Data model\<close>

text \<open>
  A JavaScript string is a sequence of UTF-16 code units; \<^verbatim>\<open>===\<close> compares the
  sequences and \<^verbatim>\<open>.length\<close> counts the code units.
\<close>

type_synonym js_string = "16 word list"

record ProfileRow =
  nickname :: "js_string option"
  avatar_url :: "js_string option"

text \<open>
  \<^verbatim>\<open>interface CommentRow\<close>. The field \<^verbatim>\<open>id\<close> is named \<open>id_c\<close>, since \<open>id\<close> is the
  identity function of HOL. A \<^verbatim>\<open>string | null\<close> field is an option, \<open>None\<close> being
  \<^verbatim>\<open>null\<close>. \<^verbatim>\<open>likes_count\<close> holds the integer column of the backend.
\<close>

record CommentRow =
  id_c :: js_string
  post_id :: js_string
  user_id :: js_string
  content :: js_string
  created_at :: js_string
  parent_id :: "js_string option"
  likes_count :: int
  deleted_at :: "js_string option"
  profiles :: "ProfileRow option"

text \<open>
  \<^verbatim>\<open>type ReplyItem = CommentRow & { parent?: CommentRow | null }\<close>: the back-reference
  is absent (\<^verbatim>\<open>undefined\<close>), \<^verbatim>\<open>null\<close> or a comment.
\<close>

datatype parent_ref = ParentUndefined | ParentNull | ParentRow CommentRow

record ReplyItem = CommentRow +
  parent :: parent_ref

text \<open>\<^verbatim>\<open>type CommentWithReplies = CommentRow & { replies: ReplyItem[] }\<close>\<close>

record CommentWithReplies = CommentRow +
  replies :: "ReplyItem list"

subsection \<open>The assembly in \<^verbatim>\<open>fetchComments\<close>\<close>

text \<open>
  \<^verbatim>\<open>profilesMap.get(c.user_id) ?? null\<close>: a missing entry gives \<^verbatim>\<open>null\<close>. The spread
  copies every other field.
\<close>

definition attachProfiles :: "(js_string \<rightharpoonup> ProfileRow) \<Rightarrow> CommentRow \<Rightarrow> CommentRow" where
  "attachProfiles profilesMap c = c\<lparr>profiles := profilesMap (user_id c)\<rparr>"

text \<open>
  \<^verbatim>\<open>directReplies.forEach((r) => directReplyMap.set(r.id, attachProfiles(r)))\<close>: a later
  reply with the same identifier overwrites an earlier one.
\<close>

definition directReplyMap ::
  "(js_string \<rightharpoonup> ProfileRow) \<Rightarrow> CommentRow list \<Rightarrow> (js_string \<rightharpoonup> CommentRow)" where
  "directReplyMap profilesMap directReplies =
     foldl (\<lambda>m r. m(id_c r \<mapsto> attachProfiles profilesMap r)) Map.empty directReplies"

text \<open>
  \<^verbatim>\<open>directReplyMap.get(n.parent_id!)\<close>: the \<^verbatim>\<open>!\<close> is erased at run time, and \<^verbatim>\<open>get\<close>
  gives \<^verbatim>\<open>undefined\<close> for \<^verbatim>\<open>null\<close> and for a key that is not in the map.
\<close>

definition parent_lookup :: "(js_string \<rightharpoonup> CommentRow) \<Rightarrow> CommentRow \<Rightarrow> parent_ref" where
  "parent_lookup m n =
     (case parent_id n of
        None \<Rightarrow> ParentUndefined
      | Some p \<Rightarrow> (case m p of None \<Rightarrow> ParentUndefined | Some d \<Rightarrow> ParentRow d))"

text \<open>
  The comparator \<^verbatim>\<open>new Date(b.created_at).getTime() - new Date(a.created_at).getTime()\<close>.
  \<open>getTime\<close> stands for \<^verbatim>\<open>new Date(s).getTime()\<close>, the milliseconds since the epoch, and
  is \<open>None\<close> where the string is no date and JavaScript gives \<^verbatim>\<open>NaN\<close>. A difference with
  \<^verbatim>\<open>NaN\<close> is \<^verbatim>\<open>NaN\<close>, which \<^verbatim>\<open>sort\<close> reads as \<open>0\<close>. Only the sign of the result is used,
  and the floating-point difference of two integral time values has the sign of the
  exact difference.
\<close>

definition cmp_created ::
  "(js_string \<Rightarrow> int option) \<Rightarrow> 'a CommentRow_scheme \<Rightarrow> 'b CommentRow_scheme \<Rightarrow> int" where
  "cmp_created getTime a b =
     (case (getTime (created_at b), getTime (created_at a)) of
        (Some tb, Some ta) \<Rightarrow> tb - ta
      | _ \<Rightarrow> 0)"

text \<open>
  \<^verbatim>\<open>Array.prototype.sort\<close> is stable: elements that the comparator does not separate keep
  their order. It is modelled by insertion from the right, where an element goes before
  the first element that it does not have to follow.
\<close>

fun insert_sorted :: "('a \<Rightarrow> 'a \<Rightarrow> int) \<Rightarrow> 'a \<Rightarrow> 'a list \<Rightarrow> 'a list" where
  "insert_sorted cmp x [] = [x]"
| "insert_sorted cmp x (y # ys) =
     (if cmp x y \<le> 0 then x # y # ys else y # insert_sorted cmp x ys)"

definition sort_array :: "('a \<Rightarrow> 'a \<Rightarrow> int) \<Rightarrow> 'a list \<Rightarrow> 'a list" where
  "sort_array cmp xs = foldr (insert_sorted cmp) xs []"

text \<open>The body of \<^verbatim>\<open>list.map((c) => ...)\<close>, local by local.\<close>

definition direct_of :: "(js_string \<rightharpoonup> ProfileRow) \<Rightarrow> CommentRow list \<Rightarrow> CommentRow \<Rightarrow> CommentRow list" where
  "direct_of profilesMap directReplies c =
     map (attachProfiles profilesMap) (filter (\<lambda>r. parent_id r = Some (id_c c)) directReplies)"

text \<open>
  \<^verbatim>\<open>directIds.includes(n.parent_id!)\<close>: \<^verbatim>\<open>null\<close> is equal to no string.
\<close>

definition includes_parent :: "js_string list \<Rightarrow> CommentRow \<Rightarrow> bool" where
  "includes_parent directIds n =
     (case parent_id n of None \<Rightarrow> False | Some p \<Rightarrow> p \<in> set directIds)"

definition nested_of ::
  "(js_string \<rightharpoonup> ProfileRow) \<Rightarrow> CommentRow list \<Rightarrow> CommentRow list \<Rightarrow> CommentRow \<Rightarrow> ReplyItem list" where
  "nested_of profilesMap directReplies nestedReplies c =
     (let direct = direct_of profilesMap directReplies c;
          directIds = map id_c direct
      in map (\<lambda>n. CommentRow.extend (attachProfiles profilesMap n)
                    (ReplyItem.fields (parent_lookup (directReplyMap profilesMap directReplies) n)))
             (filter (includes_parent directIds) nestedReplies))"

definition flatReplies ::
  "(js_string \<Rightarrow> int option) \<Rightarrow> (js_string \<rightharpoonup> ProfileRow) \<Rightarrow>
   CommentRow list \<Rightarrow> CommentRow list \<Rightarrow> CommentRow \<Rightarrow> ReplyItem list" where
  "flatReplies getTime profilesMap directReplies nestedReplies c =
     sort_array (cmp_created getTime)
       (map (\<lambda>r. CommentRow.extend r (ReplyItem.fields ParentNull))
            (direct_of profilesMap directReplies c)
        @ nested_of profilesMap directReplies nestedReplies c)"

text \<open>
  \<^verbatim>\<open>withReplies\<close>: one group for every top-level comment of the page, in the order of
  the page. No step of the assembly throws, so the result is a plain value.
\<close>

definition withReplies ::
  "(js_string \<Rightarrow> int option) \<Rightarrow> (js_string \<rightharpoonup> ProfileRow) \<Rightarrow>
   CommentRow list \<Rightarrow> CommentRow list \<Rightarrow> CommentRow list \<Rightarrow> CommentWithReplies list" where
  "withReplies getTime profilesMap list directReplies nestedReplies =
     map (\<lambda>c. CommentRow.extend (attachProfiles profilesMap c)
                (CommentWithReplies.fields
                   (flatReplies getTime profilesMap directReplies nestedReplies c)))
         list"

text \<open>Every reply item of every group, group after group.\<close>

definition all_replies :: "CommentWithReplies list \<Rightarrow> ReplyItem list" where
  "all_replies groups = concat (map replies groups)"

text \<open>The reply items that carry a given identifier.\<close>

definition occurrences :: "js_string \<Rightarrow> ReplyItem list \<Rightarrow> ReplyItem list" where
  "occurrences i rs = filter (\<lambda>r. id_c r = i) rs"

text \<open>The identifiers of the three collections are pairwise distinct.\<close>

definition distinct_ids :: "CommentRow list \<Rightarrow> CommentRow list \<Rightarrow> CommentRow list \<Rightarrow> bool" where
  "distinct_ids list directReplies nestedReplies =
     distinct (map id_c list @ map id_c directReplies @ map id_c nestedReplies)"

subsection \<open>The assembly on a store\<close>

text \<open>
  The arrays, maps and sets of the page are mutable and shared by reference. To tell
  whether the assembly changes what it was given, they are put into a store: a list of
  cells, an address being an index, and a fresh array or map being appended. The
  elements are values: the assembly never writes a field of an object, it only builds
  new objects with spread syntax. The address parameters carry the names of the
  variables of the source with the suffix \<open>_a\<close>.
\<close>

datatype cell =
    Rows "CommentRow list"
  | Ids "js_string list"
  | Items "ReplyItem list"
  | Groups "CommentWithReplies list"
  | ProfileMap "js_string \<rightharpoonup> ProfileRow"
  | RowMap "js_string \<rightharpoonup> CommentRow"
  | IdSet "js_string set"

type_synonym addr = nat
type_synonym store = "cell list"

definition alloc :: "cell \<Rightarrow> store \<Rightarrow> addr \<times> store" where
  "alloc c s = (length s, s @ [c])"

definition cell_at :: "store \<Rightarrow> addr \<Rightarrow> cell option" where
  "cell_at s a = (if a < length s then Some (s ! a) else None)"

text \<open>Reading a cell as an array or map of the expected kind; \<open>None\<close> is a type error.\<close>

definition get_rows :: "store \<Rightarrow> addr \<Rightarrow> CommentRow list option" where
  "get_rows s a = (case cell_at s a of Some (Rows xs) \<Rightarrow> Some xs | _ \<Rightarrow> None)"

definition get_ids :: "store \<Rightarrow> addr \<Rightarrow> js_string list option" where
  "get_ids s a = (case cell_at s a of Some (Ids xs) \<Rightarrow> Some xs | _ \<Rightarrow> None)"

definition get_items :: "store \<Rightarrow> addr \<Rightarrow> ReplyItem list option" where
  "get_items s a = (case cell_at s a of Some (Items xs) \<Rightarrow> Some xs | _ \<Rightarrow> None)"

definition get_profile_map :: "store \<Rightarrow> addr \<Rightarrow> (js_string \<rightharpoonup> ProfileRow) option" where
  "get_profile_map s a = (case cell_at s a of Some (ProfileMap m) \<Rightarrow> Some m | _ \<Rightarrow> None)"

definition get_row_map :: "store \<Rightarrow> addr \<Rightarrow> (js_string \<rightharpoonup> CommentRow) option" where
  "get_row_map s a = (case cell_at s a of Some (RowMap m) \<Rightarrow> Some m | _ \<Rightarrow> None)"

text \<open>
  \<^verbatim>\<open>directReplies.forEach((r) => directReplyMap.set(r.id, attachProfiles(r)))\<close>: \<open>k\<close>
  elements are still to be visited, from index \<open>i\<close> on. The array is read at every
  visit, and \<^verbatim>\<open>set\<close> overwrites the cell of the map.
\<close>

fun forEach_set :: "nat \<Rightarrow> nat \<Rightarrow> addr \<Rightarrow> addr \<Rightarrow> addr \<Rightarrow> store \<Rightarrow> store option" where
  "forEach_set 0 i directReplies_a profilesMap_a directReplyMap_a s = Some s"
| "forEach_set (Suc k) i directReplies_a profilesMap_a directReplyMap_a s =
     do {
       ds \<leftarrow> get_rows s directReplies_a;
       if i < length ds then
         do {
           pm \<leftarrow> get_profile_map s profilesMap_a;
           m \<leftarrow> get_row_map s directReplyMap_a;
           forEach_set k (Suc i) directReplies_a profilesMap_a directReplyMap_a
             (s[directReplyMap_a := RowMap (m(id_c (ds ! i) \<mapsto> attachProfiles pm (ds ! i)))])
         }
       else forEach_set k (Suc i) directReplies_a profilesMap_a directReplyMap_a s
     }"

text \<open>
  The callback of \<^verbatim>\<open>list.map\<close> for one top-level comment. \<^verbatim>\<open>filter\<close>, \<^verbatim>\<open>map\<close> and the array
  literal each make a new array; \<^verbatim>\<open>sort\<close> sorts the array it is called on in place, here
  the array literal.
\<close>

definition assemble_group ::
  "(js_string \<Rightarrow> int option) \<Rightarrow> addr \<Rightarrow> addr \<Rightarrow> addr \<Rightarrow> addr \<Rightarrow> CommentRow \<Rightarrow> store \<Rightarrow>
   (CommentWithReplies \<times> store) option" where
  "assemble_group getTime directReplies_a nestedReplies_a profilesMap_a directReplyMap_a c s0 =
     do {
       ds \<leftarrow> get_rows s0 directReplies_a;
       (filtered, s1) \<leftarrow>
         Some (alloc (Rows (filter (\<lambda>r. parent_id r = Some (id_c c)) ds)) s0);
       fs \<leftarrow> get_rows s1 filtered;
       pm \<leftarrow> get_profile_map s1 profilesMap_a;
       (direct, s2) \<leftarrow> Some (alloc (Rows (map (attachProfiles pm) fs)) s1);
       dv \<leftarrow> get_rows s2 direct;
       (directIds, s3) \<leftarrow> Some (alloc (Ids (map id_c dv)) s2);
       ns \<leftarrow> get_rows s3 nestedReplies_a;
       ids \<leftarrow> get_ids s3 directIds;
       (nfiltered, s4) \<leftarrow> Some (alloc (Rows (filter (includes_parent ids) ns)) s3);
       nf \<leftarrow> get_rows s4 nfiltered;
       pm' \<leftarrow> get_profile_map s4 profilesMap_a;
       m \<leftarrow> get_row_map s4 directReplyMap_a;
       (nested, s5) \<leftarrow>
         Some (alloc (Items (map (\<lambda>n. CommentRow.extend (attachProfiles pm' n)
                                        (ReplyItem.fields (parent_lookup m n))) nf)) s4);
       dv' \<leftarrow> get_rows s5 direct;
       (tagged, s6) \<leftarrow>
         Some (alloc (Items (map (\<lambda>r. CommentRow.extend r (ReplyItem.fields ParentNull)) dv')) s5);
       ts \<leftarrow> get_items s6 tagged;
       nv \<leftarrow> get_items s6 nested;
       (literal, s7) \<leftarrow> Some (alloc (Items (ts @ nv)) s6);
       lv \<leftarrow> get_items s7 literal;
       s8 \<leftarrow> Some (s7[literal := Items (sort_array (cmp_created getTime) lv)]);
       flat \<leftarrow> get_items s8 literal;
       pm'' \<leftarrow> get_profile_map s8 profilesMap_a;
       Some (CommentRow.extend (attachProfiles pm'' c) (CommentWithReplies.fields flat), s8)
     }"

text \<open>
  \<^verbatim>\<open>list.map((c) => ...)\<close>: \<open>k\<close> elements are still to be visited, from index \<open>i\<close> on, and
  the array is read at every visit.
\<close>

fun map_groups ::
  "nat \<Rightarrow> nat \<Rightarrow> (js_string \<Rightarrow> int option) \<Rightarrow> addr \<Rightarrow> addr \<Rightarrow> addr \<Rightarrow> addr \<Rightarrow> addr \<Rightarrow> store \<Rightarrow>
   (CommentWithReplies list \<times> store) option" where
  "map_groups 0 i getTime list_a directReplies_a nestedReplies_a profilesMap_a directReplyMap_a s =
     Some ([], s)"
| "map_groups (Suc k) i getTime list_a directReplies_a nestedReplies_a profilesMap_a
     directReplyMap_a s =
     do {
       cs \<leftarrow> get_rows s list_a;
       if i < length cs then
         do {
           (g, s1) \<leftarrow> assemble_group getTime directReplies_a nestedReplies_a profilesMap_a
                        directReplyMap_a (cs ! i) s;
           (gs, s2) \<leftarrow> map_groups k (Suc i) getTime list_a directReplies_a nestedReplies_a
                         profilesMap_a directReplyMap_a s1;
           Some (g # gs, s2)
         }
       else map_groups k (Suc i) getTime list_a directReplies_a nestedReplies_a profilesMap_a
              directReplyMap_a s
     }"

text \<open>
  The assembly: the new map, the loop that fills it, and \<^verbatim>\<open>list.map\<close>, whose result is the
  new array \<^verbatim>\<open>withReplies\<close>. It returns the address of that array and the final store.
\<close>

definition withReplies_store ::
  "(js_string \<Rightarrow> int option) \<Rightarrow> addr \<Rightarrow> addr \<Rightarrow> addr \<Rightarrow> addr \<Rightarrow> store \<Rightarrow> (addr \<times> store) option" where
  "withReplies_store getTime list_a directReplies_a nestedReplies_a profilesMap_a s0 =
     do {
       (directReplyMap_a, s1) \<leftarrow> Some (alloc (RowMap Map.empty) s0);
       ds \<leftarrow> get_rows s1 directReplies_a;
       s2 \<leftarrow> forEach_set (length ds) 0 directReplies_a profilesMap_a directReplyMap_a s1;
       cs \<leftarrow> get_rows s2 list_a;
       (gs, s3) \<leftarrow> map_groups (length cs) 0 getTime list_a directReplies_a nestedReplies_a
                     profilesMap_a directReplyMap_a s2;
       Some (alloc (Groups gs) s3)
     }"

text \<open>The cells that one run of the callback appends for the comment \<open>c\<close>.\<close>

definition group_cells ::
  "(js_string \<Rightarrow> int option) \<Rightarrow> (js_string \<rightharpoonup> ProfileRow) \<Rightarrow>
   CommentRow list \<Rightarrow> CommentRow list \<Rightarrow> CommentRow \<Rightarrow> cell list" where
  "group_cells getTime pm ds ns c =
     [Rows (filter (\<lambda>r. parent_id r = Some (id_c c)) ds),
      Rows (direct_of pm ds c),
      Ids (map id_c (direct_of pm ds c)),
      Rows (filter (includes_parent (map id_c (direct_of pm ds c))) ns),
      Items (nested_of pm ds ns c),
      Items (map (\<lambda>r. CommentRow.extend r (ReplyItem.fields ParentNull)) (direct_of pm ds c)),
      Items (flatReplies getTime pm ds ns c)]"

subsection \<open>The comment view \<^verbatim>\<open>CommentBlock\<close>\<close>

text \<open>
  The state of the page that the view and the handlers read: the signed-in user (its
  identifier, \<open>None\<close> when signed out), the route parameter \<^verbatim>\<open>id\<close>, the assembled
  comments, the identifiers of the comments the viewer liked, and the form state.
\<close>

record page_state =
  user :: "js_string option"
  id_param :: "js_string option"
  comments :: "CommentWithReplies list"
  likedCommentIds :: "js_string set"
  editCommentId :: "js_string option"
  editContent :: js_string
  commentInput :: js_string
  commentSubmitting :: bool
  replyToId :: "js_string option"
  replyInput :: js_string
  replySubmitting :: bool

text \<open>
  The texts of the view, as code units: the placeholder nickname (Korean for "unknown"),
  the placeholder initial \<^verbatim>\<open>?\<close> and the notice shown for a deleted comment.
\<close>

definition unknown_nickname :: js_string where
  "unknown_nickname = [0xC54C, 0x20, 0xC218, 0x20, 0xC5C6, 0xC74C]"

definition question_mark :: js_string where
  "question_mark = [0x3F]"

definition deleted_notice :: js_string where
  "deleted_notice = [0xC0AD, 0xC81C, 0xB41C, 0x20, 0xB313, 0xAE00, 0xC785, 0xB2C8, 0xB2E4, 0x2E]"

text \<open>
  \<^verbatim>\<open>x?.nickname || d\<close> and \<^verbatim>\<open>!!x\<close> on a \<^verbatim>\<open>string | null\<close>: \<^verbatim>\<open>null\<close>, \<^verbatim>\<open>undefined\<close> and the
  empty string are falsy.
\<close>

definition truthy :: "js_string option \<Rightarrow> bool" where
  "truthy s = (case s of None \<Rightarrow> False | Some v \<Rightarrow> v \<noteq> [])"

definition or_else :: "js_string option \<Rightarrow> js_string \<Rightarrow> js_string" where
  "or_else s d = (case s of None \<Rightarrow> d | Some v \<Rightarrow> if v = [] then d else v)"

text \<open>\<^verbatim>\<open>c.profiles?.nickname\<close> and \<^verbatim>\<open>c.profiles?.avatar_url\<close>\<close>

definition profile_nickname :: "'a CommentRow_scheme \<Rightarrow> js_string option" where
  "profile_nickname c = (case profiles c of None \<Rightarrow> None | Some p \<Rightarrow> nickname p)"

definition profile_avatar_url :: "'a CommentRow_scheme \<Rightarrow> js_string option" where
  "profile_avatar_url c = (case profiles c of None \<Rightarrow> None | Some p \<Rightarrow> avatar_url p)"

text \<open>
  What a \<^verbatim>\<open>CommentBlock\<close> shows. The avatar is the image of the profile or, without
  one, the first code unit of the nickname or of \<^verbatim>\<open>?\<close>. The body is the notice for a deleted comment, the edit
  form or the content. \<open>like_button\<close> is the clickable heart with the derived
  \<^verbatim>\<open>liked\<close> flag and the count, \<open>like_count_shown\<close> the count shown to a signed-out
  viewer; the other fields tell whether the reply, edit and delete buttons are rendered.
\<close>

datatype body_view = DeletedNotice js_string | EditForm js_string | Content js_string

datatype avatar_view = Image js_string | Initial js_string

record comment_view =
  view_key :: js_string
  view_nickname :: js_string
  view_avatar :: avatar_view
  view_created_at :: js_string
  view_replying_to :: "js_string option"
  view_body :: body_view
  like_button :: "(bool \<times> int) option"
  like_count_shown :: "int option"
  reply_button :: bool
  edit_button :: bool
  delete_button :: bool

definition isOwn :: "page_state \<Rightarrow> 'a CommentRow_scheme \<Rightarrow> bool" where
  "isOwn st c = (user st = Some (user_id c))"

definition liked :: "page_state \<Rightarrow> 'a CommentRow_scheme \<Rightarrow> bool" where
  "liked st c = (id_c c \<in> likedCommentIds st)"

definition isDeleted :: "'a CommentRow_scheme \<Rightarrow> bool" where
  "isDeleted c = truthy (deleted_at c)"

definition isEditing :: "page_state \<Rightarrow> 'a CommentRow_scheme \<Rightarrow> bool" where
  "isEditing st c = (\<not> isDeleted c \<and> editCommentId st = Some (id_c c))"

text \<open>
  \<^verbatim>\<open>{parent && ...}\<close>: the line "replying to" is rendered for a back-reference that is a
  comment, with the nickname of that comment or the placeholder.
\<close>

definition replying_to :: "parent_ref \<Rightarrow> js_string option" where
  "replying_to p =
     (case p of ParentRow d \<Rightarrow> Some (or_else (profile_nickname d) unknown_nickname)
      | _ \<Rightarrow> None)"

definition CommentBlock :: "page_state \<Rightarrow> 'a CommentRow_scheme \<Rightarrow> parent_ref \<Rightarrow> comment_view" where
  "CommentBlock st c p =
     \<lparr>view_key = id_c c,
      view_nickname = or_else (profile_nickname c) unknown_nickname,
      view_avatar = (if truthy (profile_avatar_url c)
                     then Image (or_else (profile_avatar_url c) [])
                     else Initial (take 1 (or_else (profile_nickname c) question_mark))),
      view_created_at = created_at c,
      view_replying_to = replying_to p,
      view_body = (if isDeleted c then DeletedNotice deleted_notice
                   else if isEditing st c then EditForm (editContent st)
                   else Content (content c)),
      like_button = (if \<not> isEditing st c \<and> \<not> isDeleted c \<and> user st \<noteq> None
                     then Some (liked st c, likes_count c) else None),
      like_count_shown = (if \<not> isEditing st c \<and> \<not> isDeleted c \<and> user st = None
                          then Some (likes_count c) else None),
      reply_button = (\<not> isEditing st c \<and> \<not> isDeleted c \<and> user st \<noteq> None),
      edit_button = (\<not> isEditing st c \<and> \<not> isDeleted c \<and> isOwn st c),
      delete_button = (\<not> isEditing st c \<and> \<not> isDeleted c \<and> isOwn st c)\<rparr>"

subsection \<open>The handlers\<close>

text \<open>
  A handler returns the next state of the page and what it did to the outside, in order:
  commands to the backend, toasts, the console and the reload of the comments.
\<close>

datatype effect =
    InsertComment js_string js_string js_string "js_string option"
  | DeleteCommentLike js_string js_string
  | InsertCommentLike js_string js_string
  | UpdateDeletedAt js_string js_string js_string
  | ToastError js_string
  | ToastSuccess js_string
  | ConsoleError
  | FetchComments nat bool

text \<open>
  How an awaited backend call ends: it resolves, it resolves with an \<^verbatim>\<open>error\<close> in its
  result, or the promise rejects.
\<close>

datatype call_result = Resolved | ResolvedWithError | Rejected

definition COMMENT_MAX_LENGTH :: nat where
  "COMMENT_MAX_LENGTH = 1000"

text \<open>
  \<^verbatim>\<open>String.prototype.trim\<close> removes the white space and line terminators of ECMAScript at
  both ends.
\<close>

definition is_white_space :: "16 word \<Rightarrow> bool" where
  "is_white_space u =
     (u \<in> {0x09, 0x0A, 0x0B, 0x0C, 0x0D, 0x20, 0xA0, 0x1680, 0x2028, 0x2029, 0x202F, 0x205F,
            0x3000, 0xFEFF}
      \<or> (0x2000 \<le> u \<and> u \<le> 0x200A))"

definition trim :: "js_string \<Rightarrow> js_string" where
  "trim s = rev (dropWhile is_white_space (rev (dropWhile is_white_space s)))"

text \<open>The texts of the toasts, as code units (the limit is printed into two of them).\<close>

definition msg_login_required :: js_string where
  "msg_login_required =
     [0xB85C, 0xADF8, 0xC778, 0xC774, 0x20, 0xD544, 0xC694, 0xD569, 0xB2C8, 0xB2E4, 0x2E]"

definition msg_content_required :: js_string where
  "msg_content_required =
     [0xB313, 0xAE00, 0x20, 0xB0B4, 0xC6A9, 0xC744, 0x20, 0xC785, 0xB825, 0xD574, 0xC8FC, 0xC138,
      0xC694, 0x2E]"

definition msg_too_long :: js_string where
  "msg_too_long =
     [0xB313, 0xAE00, 0xC740, 0x20, 0x31, 0x30, 0x30, 0x30, 0xC790, 0x20, 0xC774, 0xD558, 0xC5EC,
      0xC57C, 0x20, 0xD569, 0xB2C8, 0xB2E4, 0x2E]"

definition msg_reply_range :: js_string where
  "msg_reply_range =
     [0xB313, 0xAE00, 0xC740, 0x20, 0x31, 0x7E, 0x31, 0x30, 0x30, 0x30, 0xC790, 0xB85C, 0x20,
      0xC785, 0xB825, 0xD574, 0xC8FC, 0xC138, 0xC694, 0x2E]"

definition msg_comment_created :: js_string where
  "msg_comment_created =
     [0xB313, 0xAE00, 0xC774, 0x20, 0xC791, 0xC131, 0xB418, 0xC5C8, 0xC2B5, 0xB2C8, 0xB2E4, 0x2E]"

definition msg_comment_failed :: js_string where
  "msg_comment_failed =
     [0xB313, 0xAE00, 0x20, 0xC791, 0xC131, 0xC5D0, 0x20, 0xC2E4, 0xD328, 0xD588, 0xC2B5, 0xB2C8,
      0xB2E4, 0x2E]"

definition msg_reply_created :: js_string where
  "msg_reply_created =
     [0xB2F5, 0xAE00, 0xC774, 0x20, 0xC791, 0xC131, 0xB418, 0xC5C8, 0xC2B5, 0xB2C8, 0xB2E4, 0x2E]"

definition msg_reply_failed :: js_string where
  "msg_reply_failed =
     [0xB2F5, 0xAE00, 0x20, 0xC791, 0xC131, 0xC5D0, 0x20, 0xC2E4, 0xD328, 0xD588, 0xC2B5, 0xB2C8,
      0xB2E4, 0x2E]"

definition msg_not_processed :: js_string where
  "msg_not_processed =
     [0xCC98, 0xB9AC, 0xD558, 0xC9C0, 0x20, 0xBABB, 0xD588, 0xC2B5, 0xB2C8, 0xB2E4, 0x2E]"

definition msg_comment_deleted :: js_string where
  "msg_comment_deleted =
     [0xB313, 0xAE00, 0xC774, 0x20, 0xC0AD, 0xC81C, 0xB418, 0xC5C8, 0xC2B5, 0xB2C8, 0xB2E4, 0x2E]"

definition msg_delete_failed :: js_string where
  "msg_delete_failed =
     [0xC0AD, 0xC81C, 0xC5D0, 0x20, 0xC2E4, 0xD328, 0xD588, 0xC2B5, 0xB2C8, 0xB2E4, 0x2E]"

text \<open>
  \<^verbatim>\<open>handleSubmitComment\<close>. \<^verbatim>\<open>!user || !id\<close> holds without a user and for a missing or
  empty route parameter. The submitting flag is set before the insert and cleared in
  \<^verbatim>\<open>finally\<close>; an insert that resolves with an error is thrown and caught like a
  rejected one.
\<close>

definition handleSubmitComment :: "call_result \<Rightarrow> page_state \<Rightarrow> page_state \<times> effect list" where
  "handleSubmitComment res st =
     (case (user st, id_param st) of
        (Some uid, Some pid) \<Rightarrow>
          if pid = [] then (st, [ToastError msg_login_required])
          else
            let content = trim (commentInput st) in
            if content = [] then (st, [ToastError msg_content_required])
            else if length content > COMMENT_MAX_LENGTH then (st, [ToastError msg_too_long])
            else (case res of
                    Resolved \<Rightarrow>
                      (st\<lparr>commentInput := [], commentSubmitting := False\<rparr>,
                       [InsertComment pid uid content None, ToastSuccess msg_comment_created,
                        FetchComments 0 False])
                  | _ \<Rightarrow>
                      (st\<lparr>commentSubmitting := False\<rparr>,
                       [InsertComment pid uid content None, ConsoleError,
                        ToastError msg_comment_failed]))
      | _ \<Rightarrow> (st, [ToastError msg_login_required]))"

text \<open>\<^verbatim>\<open>handleSubmitReply\<close>: without a user or route parameter it returns silently.\<close>

definition handleSubmitReply ::
  "call_result \<Rightarrow> js_string \<Rightarrow> page_state \<Rightarrow> page_state \<times> effect list" where
  "handleSubmitReply res parentId st =
     (case (user st, id_param st) of
        (Some uid, Some pid) \<Rightarrow>
          if pid = [] then (st, [])
          else
            let content = trim (replyInput st) in
            if content = [] \<or> length content > COMMENT_MAX_LENGTH
            then (st, [ToastError msg_reply_range])
            else (case res of
                    Resolved \<Rightarrow>
                      (st\<lparr>replyInput := [], replyToId := None, replySubmitting := False\<rparr>,
                       [InsertComment pid uid content (Some parentId),
                        ToastSuccess msg_reply_created, FetchComments 0 False])
                  | _ \<Rightarrow>
                      (st\<lparr>replySubmitting := False\<rparr>,
                       [InsertComment pid uid content (Some parentId), ConsoleError,
                        ToastError msg_reply_failed]))
      | _ \<Rightarrow> (st, []))"

text \<open>
  The two updaters that \<^verbatim>\<open>handleToggleLike\<close> passes to \<^verbatim>\<open>setComments\<close>. A group whose own
  identifier matches is updated and its replies are left alone; otherwise the matching
  replies of the group are updated. \<^verbatim>\<open>Math.max(0, n - 1)\<close> keeps the count from going
  below zero.
\<close>

definition unlike_comments :: "js_string \<Rightarrow> CommentWithReplies list \<Rightarrow> CommentWithReplies list" where
  "unlike_comments commentId prev =
     map (\<lambda>c. if id_c c = commentId then c\<lparr>likes_count := max 0 (likes_count c - 1)\<rparr>
               else c\<lparr>replies :=
                      map (\<lambda>r. if id_c r = commentId
                                then r\<lparr>likes_count := max 0 (likes_count r - 1)\<rparr> else r)
                          (replies c)\<rparr>)
         prev"

definition like_comments :: "js_string \<Rightarrow> CommentWithReplies list \<Rightarrow> CommentWithReplies list" where
  "like_comments commentId prev =
     map (\<lambda>c. if id_c c = commentId then c\<lparr>likes_count := likes_count c + 1\<rparr>
               else c\<lparr>replies :=
                      map (\<lambda>r. if id_c r = commentId
                                then r\<lparr>likes_count := likes_count r + 1\<rparr> else r)
                          (replies c)\<rparr>)
         prev"

text \<open>
  \<^verbatim>\<open>handleToggleLike\<close>. The result of the awaited backend call is not inspected: only a
  rejected promise reaches \<^verbatim>\<open>catch\<close>, and then the state is left as it was.
\<close>

definition handleToggleLike ::
  "call_result \<Rightarrow> js_string \<Rightarrow> page_state \<Rightarrow> page_state \<times> effect list" where
  "handleToggleLike res commentId st =
     (case user st of
        None \<Rightarrow> (st, [])
      | Some uid \<Rightarrow>
          if commentId \<in> likedCommentIds st
          then (case res of
                  Rejected \<Rightarrow>
                    (st, [DeleteCommentLike commentId uid, ConsoleError,
                          ToastError msg_not_processed])
                | _ \<Rightarrow>
                    (st\<lparr>likedCommentIds := likedCommentIds st - {commentId},
                        comments := unlike_comments commentId (comments st)\<rparr>,
                     [DeleteCommentLike commentId uid]))
          else (case res of
                  Rejected \<Rightarrow>
                    (st, [InsertCommentLike commentId uid, ConsoleError,
                          ToastError msg_not_processed])
                | _ \<Rightarrow>
                    (st\<lparr>likedCommentIds := insert commentId (likedCommentIds st),
                        comments := like_comments commentId (comments st)\<rparr>,
                     [InsertCommentLike commentId uid])))"

text \<open>
  \<^verbatim>\<open>handleDeleteComment\<close>. \<open>confirmed\<close> is the answer to \<^verbatim>\<open>window.confirm\<close>, \<open>now\<close> is
  \<^verbatim>\<open>new Date().toISOString()\<close>, and the update command carries the comment, the user and
  that timestamp. Without a user, \<^verbatim>\<open>user!.id\<close> throws before the command is sent. The
  handler sets no state of the page: the comments change when the reload it starts has
  come back.
\<close>

definition handleDeleteComment ::
  "bool \<Rightarrow> js_string \<Rightarrow> call_result \<Rightarrow> js_string \<Rightarrow> page_state \<Rightarrow> page_state \<times> effect list" where
  "handleDeleteComment confirmed now res commentId st =
     (if \<not> confirmed then (st, [])
      else
        (case user st of
           None \<Rightarrow> (st, [ConsoleError, ToastError msg_delete_failed])
         | Some uid \<Rightarrow>
             (case res of
                Resolved \<Rightarrow>
                  (st, [UpdateDeletedAt commentId uid now, ToastSuccess msg_comment_deleted,
                        FetchComments 0 False])
              | _ \<Rightarrow>
                  (st, [UpdateDeletedAt commentId uid now, ConsoleError,
                        ToastError msg_delete_failed]))))"

text \<open>
  What \<^verbatim>\<open>fetchComments(0, false)\<close> does to the state of the page once its queries have
  come back: with no top-level comment it empties the comments, and otherwise it stores
  the liked identifiers and the assembled groups. It sets nothing else of the state
  modelled here; the open reply form (\<^verbatim>\<open>replyToId\<close>, \<^verbatim>\<open>replyInput\<close>) is left as it is.
\<close>

definition fetchComments_replace ::
  "(js_string \<Rightarrow> int option) \<Rightarrow> (js_string \<rightharpoonup> ProfileRow) \<Rightarrow>
   CommentRow list \<Rightarrow> CommentRow list \<Rightarrow> CommentRow list \<Rightarrow> js_string set \<Rightarrow>
   page_state \<Rightarrow> page_state" where
  "fetchComments_replace getTime profilesMap list directReplies nestedReplies myLiked st =
     (if list = [] then st\<lparr>comments := []\<rparr>
      else st\<lparr>likedCommentIds := myLiked,
              comments := withReplies getTime profilesMap list directReplies nestedReplies\<rparr>)"

text \<open>
  The reply form that the page renders below a comment or reply: it is there when
  \<^verbatim>\<open>replyToId === c.id\<close>, whatever else holds of the comment. Its button calls
  \<^verbatim>\<open>handleSubmitReply\<close> with the identifier of the comment and is disabled while a reply
  is being submitted or the trimmed input is empty.
\<close>

record reply_form_view =
  form_value :: js_string
  submit_disabled :: bool
  submit_parent :: js_string

definition reply_form :: "page_state \<Rightarrow> 'a CommentRow_scheme \<Rightarrow> reply_form_view option" where
  "reply_form st c =
     (if replyToId st = Some (id_c c)
      then Some \<lparr>form_value = replyInput st,
                 submit_disabled = (replySubmitting st \<or> trim (replyInput st) = []),
                 submit_parent = id_c c\<rparr>
      else None)"

subsection \<open>Notions used to state the properties\<close>

text \<open>
  A nested reply is an orphan when its \<^verbatim>\<open>parent_id\<close> is \<^verbatim>\<open>null\<close> or the identifier of no
  element of \<^verbatim>\<open>directReplies\<close>.
\<close>

definition orphan :: "CommentRow list \<Rightarrow> 'a CommentRow_scheme \<Rightarrow> bool" where
  "orphan directReplies n =
     (case parent_id n of None \<Rightarrow> True | Some p \<Rightarrow> p \<notin> set (map id_c directReplies))"

text \<open>Both creation timestamps are dates, and the first is not the earlier one.\<close>

definition time_ge ::
  "(js_string \<Rightarrow> int option) \<Rightarrow> 'a CommentRow_scheme \<Rightarrow> 'b CommentRow_scheme \<Rightarrow> bool" where
  "time_ge getTime a b =
     (case (getTime (created_at a), getTime (created_at b)) of
        (Some ta, Some tb) \<Rightarrow> tb \<le> ta
      | _ \<Rightarrow> False)"

text \<open>The comment was created at the time value \<open>t\<close>.\<close>

definition created_at_time ::
  "(js_string \<Rightarrow> int option) \<Rightarrow> int \<Rightarrow> 'a CommentRow_scheme \<Rightarrow> bool" where
  "created_at_time getTime t r = (getTime (created_at r) = Some t)"

text \<open>
  The sort key of a reply whose creation timestamp is a date: the negated time value.
\<close>

definition neg_time :: "(js_string \<Rightarrow> int option) \<Rightarrow> 'a CommentRow_scheme \<Rightarrow> int" where
  "neg_time getTime r = (case getTime (created_at r) of None \<Rightarrow> 0 | Some t \<Rightarrow> - t)"

text \<open>
  The order of JavaScript strings (\<^verbatim>\<open><=\<close>): lexicographic on the code units.
\<close>

fun js_string_le :: "js_string \<Rightarrow> js_string \<Rightarrow> bool" where
  "js_string_le [] ys = True"
| "js_string_le (x # xs) [] = False"
| "js_string_le (x # xs) (y # ys) = (x < y \<or> (x = y \<and> js_string_le xs ys))"

text \<open>
  The order of a reply list in the words of the specification: descending by creation
  time, replies of equal creation time ordered by identifier (ascending when
  \<open>ascending_ids\<close> holds, descending otherwise).
\<close>

definition spec_order ::
  "bool \<Rightarrow> (js_string \<Rightarrow> int option) \<Rightarrow> ReplyItem \<Rightarrow> ReplyItem \<Rightarrow> bool" where
  "spec_order ascending_ids getTime a b =
     (case (getTime (created_at a), getTime (created_at b)) of
        (Some ta, Some tb) \<Rightarrow>
          tb < ta \<or> (ta = tb \<and> (if ascending_ids then js_string_le (id_c a) (id_c b)
                                    else js_string_le (id_c b) (id_c a)))
      | _ \<Rightarrow> False)"

text \<open>
  Soft deletion as the backend performs it (\<^verbatim>\<open>update({ deleted_at: ... }).eq('id', ...)\<close>):
  \<open>del\<close> gives the deletion timestamp of every deleted identifier, and a deleted comment
  has its \<^verbatim>\<open>deleted_at\<close> set and nothing else changed. \<open>soft_delete_item\<close> and
  \<open>soft_delete_group\<close> do the same to a reply item with its back-reference and to a
  group with its replies.
\<close>

definition soft_delete :: "(js_string \<rightharpoonup> js_string) \<Rightarrow> 'a CommentRow_scheme \<Rightarrow> 'a CommentRow_scheme" where
  "soft_delete del c = (case del (id_c c) of None \<Rightarrow> c | Some ts \<Rightarrow> c\<lparr>deleted_at := Some ts\<rparr>)"

fun soft_delete_parent :: "(js_string \<rightharpoonup> js_string) \<Rightarrow> parent_ref \<Rightarrow> parent_ref" where
  "soft_delete_parent del (ParentRow d) = ParentRow (soft_delete del d)"
| "soft_delete_parent del p = p"

definition soft_delete_item :: "(js_string \<rightharpoonup> js_string) \<Rightarrow> ReplyItem \<Rightarrow> ReplyItem" where
  "soft_delete_item del r = (soft_delete del r)\<lparr>parent := soft_delete_parent del (parent r)\<rparr>"

definition soft_delete_group ::
  "(js_string \<rightharpoonup> js_string) \<Rightarrow> CommentWithReplies \<Rightarrow> CommentWithReplies" where
  "soft_delete_group del g =
     (soft_delete del g)\<lparr>replies := map (soft_delete_item del) (replies g)\<rparr>"

text \<open>
  A comment, a reply item with its back-reference and a group with its replies, with the
  attached profiles left out: what remains does not depend on the profile lookup.
\<close>

definition clear_profiles :: "'a CommentRow_scheme \<Rightarrow> 'a CommentRow_scheme" where
  "clear_profiles c = c\<lparr>profiles := None\<rparr>"

fun clear_profiles_parent :: "parent_ref \<Rightarrow> parent_ref" where
  "clear_profiles_parent (ParentRow d) = ParentRow (clear_profiles d)"
| "clear_profiles_parent p = p"

definition clear_profiles_item :: "ReplyItem \<Rightarrow> ReplyItem" where
  "clear_profiles_item r = (clear_profiles r)\<lparr>parent := clear_profiles_parent (parent r)\<rparr>"

definition clear_profiles_group :: "CommentWithReplies \<Rightarrow> CommentWithReplies" where
  "clear_profiles_group g = (clear_profiles g)\<lparr>replies := map clear_profiles_item (replies g)\<rparr>"

text \<open>A profile object is attached to the comment.\<close>

definition profile_attached :: "'a CommentRow_scheme \<Rightarrow> bool" where
  "profile_attached c = (profiles c \<noteq> None)"

text \<open>The insert commands among the effects of a handler.\<close>

fun is_insert :: "effect \<Rightarrow> bool" where
  "is_insert (InsertComment pid uid c p) = True"
| "is_insert e = False"

definition inserts :: "effect list \<Rightarrow> effect list" where
  "inserts effs = filter is_insert effs"

text \<open>The handler did nothing but show one error message.\<close>

fun is_rejection :: "effect list \<Rightarrow> bool" where
  "is_rejection [ToastError m] = True"
| "is_rejection effs = False"

text \<open>
  A submission in the words of the specification: content that is empty after trimming
  or longer than the limit is rejected with a message and nothing is inserted; otherwise
  one insert is issued, with the trimmed content and the given parent.
\<close>

fun inserts_content :: "effect list \<Rightarrow> js_string \<Rightarrow> js_string option \<Rightarrow> bool" where
  "inserts_content [InsertComment pid uid c p] txt parentId = (c = txt \<and> p = parentId)"
| "inserts_content effs txt parentId = False"

definition submission_as_specified ::
  "js_string \<Rightarrow> js_string option \<Rightarrow> page_state \<times> effect list \<Rightarrow> bool" where
  "submission_as_specified input parentId result =
     (let content = trim input in
      if content = [] \<or> length content > COMMENT_MAX_LENGTH
      then is_rejection (snd result) \<and> inserts (snd result) = []
      else inserts_content (inserts (snd result)) content parentId)"

text \<open>A like count that moved by exactly one, up or down.\<close>

definition changed_by_one :: "int \<Rightarrow> int \<Rightarrow> bool" where
  "changed_by_one old new = (new = old + 1 \<or> new = old - 1)"

text \<open>
  The like count an entry with the toggled identifier gets: one less, but not below
  zero, when the viewer had liked the comment, and one more otherwise.
\<close>

definition toggled_count :: "page_state \<Rightarrow> js_string \<Rightarrow> int \<Rightarrow> int" where
  "toggled_count st commentId n =
     (if commentId \<in> likedCommentIds st then max 0 (n - 1) else n + 1)"

subsection \<open>A page used to evaluate the definitions\<close>

text \<open>
  The scenario of the specification: a top-level comment \<open>A\<close>, its direct replies \<open>B\<close> and
  \<open>C\<close>, a reply \<open>D\<close> to \<open>B\<close>, and a reply \<open>E\<close> whose parent is on no loaded page.
  \<open>str\<close> reads an ASCII literal as a JavaScript string, and \<open>ex_getTime\<close> gives the time
  values of the creation timestamps that occur.
\<close>

definition str :: "string \<Rightarrow> js_string" where
  "str s = map (\<lambda>c. of_nat (of_char c)) s"

definition ex_row :: "string \<Rightarrow> string option \<Rightarrow> string \<Rightarrow> CommentRow" where
  "ex_row i p t =
     \<lparr>id_c = str i, post_id = str ''post'', user_id = str ''u1'', content = str ''hi'',
      created_at = str t, parent_id = map_option str p, likes_count = 0,
      deleted_at = None, profiles = None\<rparr>"

definition ex_getTime :: "js_string \<Rightarrow> int option" where
  "ex_getTime = map_of [(str ''t10'', 10), (str ''t9'', 9), (str ''t8'', 8), (str ''t7'', 7)]"

definition ex_A :: CommentRow where "ex_A = ex_row ''A'' None ''t10''"
definition ex_B :: CommentRow where "ex_B = ex_row ''B'' (Some ''A'') ''t9''"
definition ex_C :: CommentRow where "ex_C = ex_row ''C'' (Some ''A'') ''t8''"
definition ex_D :: CommentRow where "ex_D = ex_row ''D'' (Some ''B'') ''t7''"
definition ex_E :: CommentRow where "ex_E = ex_row ''E'' (Some ''Z'') ''t9''"

text \<open>A profile lookup that knows another author, but not the author of these comments.\<close>

definition ex_profiles :: "js_string \<rightharpoonup> ProfileRow" where
  "ex_profiles = [str ''u2'' \<mapsto> \<lparr>nickname = Some (str ''kim''), avatar_url = None\<rparr>]"

text \<open>
  Two stores that hold the same page, profile lookup and liked identifiers at different
  addresses.
\<close>

definition ex_store :: store where
  "ex_store = [Rows [ex_A], Rows [ex_B, ex_C], Rows [ex_D], ProfileMap ex_profiles,
               IdSet {str ''A''}]"

definition ex_store' :: store where
  "ex_store' = [IdSet {str ''A''}, ProfileMap ex_profiles, Ids [], Rows [ex_D],
                Rows [ex_B, ex_C], Rows [ex_A]]"

text \<open>Three direct replies to \<open>A\<close> that were created at the same time.\<close>

definition ex_Tb :: CommentRow where "ex_Tb = ex_row ''b'' (Some ''A'') ''t9''"
definition ex_Ta :: CommentRow where "ex_Ta = ex_row ''a'' (Some ''A'') ''t9''"
definition ex_Tc :: CommentRow where "ex_Tc = ex_row ''c'' (Some ''A'') ''t9''"

text \<open>A reply to a comment that is not among the direct replies.\<close>

definition ex_O :: CommentRow where "ex_O = ex_row ''O'' (Some ''Y'') ''t8''"

text \<open>
  States of the page: a signed-in viewer who liked comment \<open>A\<close>, whose like count is
  \<open>0\<close>, with a reply typed in; and the same page after the session ended.
\<close>

definition ex_group :: CommentWithReplies where
  "ex_group = CommentRow.extend ex_A
     (CommentWithReplies.fields
        [CommentRow.extend (ex_B\<lparr>likes_count := 2\<rparr>) (ReplyItem.fields ParentNull),
         CommentRow.extend ex_C (ReplyItem.fields ParentNull)])"

definition ex_state :: page_state where
  "ex_state =
     \<lparr>user = Some (str ''u1''), id_param = Some (str ''post''), comments = [ex_group],
      likedCommentIds = {str ''A'', str ''B''}, editCommentId = None, editContent = [],
      commentInput = str '' hello '', commentSubmitting = False,
      replyToId = Some (str ''A''), replyInput = str ''hi'', replySubmitting = False\<rparr>"

definition ex_signed_out :: page_state where
  "ex_signed_out = ex_state\<lparr>user := None\<rparr>"

text \<open>
  The viewer, who has the reply form open below the own comment \<open>A\<close>, deletes \<open>A\<close>: the
  state after the handler, and the state after the reload, for which the backend
  returns \<open>A\<close> with its deletion timestamp.
\<close>

definition ex_deleting :: "page_state \<times> effect list" where
  "ex_deleting = handleDeleteComment True (str ''now'') Resolved (str ''A'') ex_state"

definition ex_after_delete :: page_state where
  "ex_after_delete =
     fetchComments_replace ex_getTime ex_profiles
       [soft_delete [str ''A'' \<mapsto> str ''now''] ex_A] [ex_B, ex_C] [ex_D]
       {str ''A'', str ''B''} (fst ex_deleting)"

lemmas ex_defs = ex_A_def ex_B_def ex_C_def ex_D_def ex_E_def ex_Tb_def ex_Ta_def ex_Tc_def
  ex_O_def ex_row_def str_def

section \<open>Properties of the assembly\<close>

subsection \<open>Sorting keeps the elements\<close>

lemma mset_insert_sorted: "mset (insert_sorted cmp x ys) = add_mset x (mset ys)"
  by (induction ys) auto

lemma mset_sort_array: "mset (sort_array cmp xs) = mset xs"
  unfolding sort_array_def by (induction xs) (auto simp: mset_insert_sorted)

lemma set_sort_array: "set (sort_array cmp xs) = set xs"
  using mset_sort_array [of cmp xs] by (metis set_mset_mset)

lemma filter_eq_of_mset_single:
  assumes "mset ys = mset xs" and "filter P xs = [a]"
  shows "filter P ys = [a]"
proof -
  have "mset (filter P ys) = mset (filter P xs)"
    using assms(1) by simp
  then have "mset (filter P ys) = {#a#}"
    by (simp only: assms(2) mset.simps)
  then show ?thesis
    by (simp only: mset_single_iff)
qed

lemma filter_eq_of_mset_empty:
  assumes "mset ys = mset xs" and "filter P xs = []"
  shows "filter P ys = []"
proof -
  have "set ys = set xs"
    using assms(1) by (metis set_mset_mset)
  with assms(2) show ?thesis
    by (simp add: filter_empty_conv)
qed

lemma filter_sort_array_single:
  "filter P xs = [a] \<Longrightarrow> filter P (sort_array cmp xs) = [a]"
  by (rule filter_eq_of_mset_single [OF mset_sort_array])

lemma filter_sort_array_empty:
  "filter P xs = [] \<Longrightarrow> filter P (sort_array cmp xs) = []"
  by (rule filter_eq_of_mset_empty [OF mset_sort_array])

subsection \<open>Replies of a group, by identifier\<close>

lemma id_c_attachProfiles [simp]: "id_c (attachProfiles pm c) = id_c c"
  by (simp add: attachProfiles_def)

lemma parent_id_attachProfiles [simp]: "parent_id (attachProfiles pm c) = parent_id c"
  by (simp add: attachProfiles_def)

lemma created_at_attachProfiles [simp]: "created_at (attachProfiles pm c) = created_at c"
  by (simp add: attachProfiles_def)

lemma id_c_extend [simp]: "id_c (CommentRow.extend c m) = id_c c"
  by (simp add: CommentRow.defs)

lemma created_at_extend [simp]: "created_at (CommentRow.extend c m) = created_at c"
  by (simp add: CommentRow.defs)

lemma parent_extend [simp]: "parent (CommentRow.extend c (ReplyItem.fields p)) = p"
  by (simp add: CommentRow.defs ReplyItem.defs)

lemma replies_extend [simp]: "replies (CommentRow.extend c (CommentWithReplies.fields rs)) = rs"
  by (simp add: CommentRow.defs CommentWithReplies.defs)

lemma truncate_extend [simp]: "CommentRow.truncate (CommentRow.extend c m) = c"
  by (simp add: CommentRow.defs)

lemma filter_distinct_key:
  assumes "distinct (map f xs)" and "x \<in> set xs"
  shows "filter (\<lambda>y. f y = f x) xs = [x]"
  using assms
proof (induction xs)
  case Nil
  then show ?case by simp
next
  case (Cons y ys)
  show ?case
  proof (cases "y = x")
    case True
    with Cons.prems have "f x \<notin> f ` set ys" by simp
    then have "\<forall>z \<in> set ys. f z \<noteq> f x" by (metis imageI)
    then have "filter (\<lambda>z. f z = f x) ys = []" by (simp add: filter_empty_conv)
    with True show ?thesis by simp
  next
    case False
    with Cons.prems have "x \<in> set ys" and "f y \<noteq> f x" and "distinct (map f ys)"
      by (auto simp: image_iff)
    with Cons.IH show ?thesis by simp
  qed
qed

lemma all_replies_withReplies:
  "all_replies (withReplies gt pm tops ds ns) = concat (map (flatReplies gt pm ds ns) tops)"
  by (simp add: all_replies_def withReplies_def comp_def)

lemma occurrences_concat:
  "occurrences i (concat xss) = concat (map (occurrences i) xss)"
  by (induction xss) (simp_all add: occurrences_def)

lemma concat_map_if_Some_key:
  assumes "distinct (map f xs)"
  shows "concat (map (\<lambda>c. if k = Some (f c) then [v] else []) xs)
         = (if \<exists>c \<in> set xs. k = Some (f c) then [v] else [])"
  using assms by (induction xs) (auto simp: image_iff)

lemma occurrences_direct:
  assumes "distinct (map id_c ds)" and "d \<in> set ds"
  shows "occurrences (id_c d)
           (map (\<lambda>r. CommentRow.extend r (ReplyItem.fields ParentNull)) (direct_of pm ds c))
         = (if parent_id d = Some (id_c c)
            then [CommentRow.extend (attachProfiles pm d) (ReplyItem.fields ParentNull)]
            else [])"
proof -
  have "filter (\<lambda>r. id_c r = id_c d) (filter (\<lambda>r. parent_id r = Some (id_c c)) ds)
        = filter (\<lambda>r. parent_id r = Some (id_c c)) (filter (\<lambda>r. id_c r = id_c d) ds)"
    by (simp add: conj_commute)
  also have "\<dots> = filter (\<lambda>r. parent_id r = Some (id_c c)) [d]"
    by (simp only: filter_distinct_key [OF assms])
  finally show ?thesis
    by (simp add: occurrences_def direct_of_def filter_map comp_def)
qed

lemma occurrences_nested:
  assumes "i \<notin> id_c ` set ns"
  shows "occurrences i (nested_of pm ds ns c) = []"
  using assms
  by (auto simp: occurrences_def nested_of_def Let_def filter_map comp_def filter_empty_conv)

lemma occurrences_flatReplies_direct:
  assumes "distinct (map id_c ds)" and "d \<in> set ds" and "id_c d \<notin> id_c ` set ns"
  shows "occurrences (id_c d) (flatReplies gt pm ds ns c)
         = (if parent_id d = Some (id_c c)
            then [CommentRow.extend (attachProfiles pm d) (ReplyItem.fields ParentNull)]
            else [])"
proof -
  let ?xs = "map (\<lambda>r. CommentRow.extend r (ReplyItem.fields ParentNull)) (direct_of pm ds c)
             @ nested_of pm ds ns c"
  have xs: "filter (\<lambda>r. id_c r = id_c d) ?xs
        = (if parent_id d = Some (id_c c)
            then [CommentRow.extend (attachProfiles pm d) (ReplyItem.fields ParentNull)]
            else [])"
    using occurrences_direct [OF assms(1,2), of pm c] occurrences_nested [OF assms(3), of pm ds c]
    by (simp add: occurrences_def)
  show ?thesis
  proof (cases "parent_id d = Some (id_c c)")
    case True
    with xs show ?thesis
      by (simp add: occurrences_def flatReplies_def filter_sort_array_single)
  next
    case False
    with xs show ?thesis
      by (simp add: occurrences_def flatReplies_def filter_sort_array_empty)
  qed
qed

subsection \<open>Direct replies\<close>

text \<open>
  Claim C1. When the identifiers of the three collections are pairwise distinct, a direct
  reply whose \<^verbatim>\<open>parent_id\<close> is the identifier of a top-level comment of the page occurs
  exactly once in the reply lists of all groups together, as the reply with its profile
  attached and a \<^verbatim>\<open>null\<close> back-reference; a direct reply whose \<^verbatim>\<open>parent_id\<close> is the
  identifier of no top-level comment of the page occurs in no reply list.
\<close>

theorem direct_reply_exactly_once:
  assumes "distinct_ids tops ds ns" and "d \<in> set ds"
  shows "((\<exists>c \<in> set tops. parent_id d = Some (id_c c)) \<longrightarrow>
            occurrences (id_c d) (all_replies (withReplies gt pm tops ds ns))
            = [CommentRow.extend (attachProfiles pm d) (ReplyItem.fields ParentNull)])
       \<and> ((\<forall>c \<in> set tops. parent_id d \<noteq> Some (id_c c)) \<longrightarrow>
            occurrences (id_c d) (all_replies (withReplies gt pm tops ds ns)) = [])"
proof -
  from assms have dt: "distinct (map id_c tops)" and dd: "distinct (map id_c ds)"
    and dn: "id_c d \<notin> id_c ` set ns"
    by (auto simp: distinct_ids_def)
  have "occurrences (id_c d) (all_replies (withReplies gt pm tops ds ns))
        = concat (map (\<lambda>c. occurrences (id_c d) (flatReplies gt pm ds ns c)) tops)"
    by (simp add: all_replies_withReplies occurrences_concat comp_def)
  also have "\<dots> = concat (map (\<lambda>c. if parent_id d = Some (id_c c)
            then [CommentRow.extend (attachProfiles pm d) (ReplyItem.fields ParentNull)]
            else []) tops)"
    by (simp only: occurrences_flatReplies_direct [OF dd assms(2) dn])
  also have "\<dots> = (if \<exists>c \<in> set tops. parent_id d = Some (id_c c)
            then [CommentRow.extend (attachProfiles pm d) (ReplyItem.fields ParentNull)]
            else [])"
    by (rule concat_map_if_Some_key [OF dt])
  finally show ?thesis by simp
qed

theorem direct_reply_exactly_once_witness:
  "distinct_ids [ex_A] [ex_B, ex_C, ex_E] [ex_D] \<and> ex_B \<in> set [ex_B, ex_C, ex_E] \<and> ex_E \<in> set [ex_B, ex_C, ex_E]
   \<and> parent_id ex_B = Some (id_c ex_A)
   \<and> parent_id ex_E \<noteq> Some (id_c ex_A)
   \<and> occurrences (id_c ex_B) (all_replies (withReplies ex_getTime Map.empty [ex_A] [ex_B, ex_C, ex_E] [ex_D]))
       = [CommentRow.extend (attachProfiles Map.empty ex_B) (ReplyItem.fields ParentNull)]
   \<and> occurrences (id_c ex_E) (all_replies (withReplies ex_getTime Map.empty [ex_A] [ex_B, ex_C, ex_E] [ex_D])) = []"
proof -
  have h: "distinct_ids [ex_A] [ex_B, ex_C, ex_E] [ex_D]"
    by (simp add: distinct_ids_def ex_defs)
  have b: "ex_B \<in> set [ex_B, ex_C, ex_E]" and e: "ex_E \<in> set [ex_B, ex_C, ex_E]" by simp_all
  have pb: "\<exists>c \<in> set [ex_A]. parent_id ex_B = Some (id_c c)" by (simp add: ex_defs)
  have pe: "\<forall>c \<in> set [ex_A]. parent_id ex_E \<noteq> Some (id_c c)" by (simp add: ex_defs)
  from direct_reply_exactly_once [OF h b, of ex_getTime Map.empty]
       direct_reply_exactly_once [OF h e, of ex_getTime Map.empty] h b e pb pe
  show ?thesis by simp
qed

subsection \<open>Nested replies\<close>

lemma foldl_upd_other:
  "k \<notin> f ` set xs \<Longrightarrow> foldl (\<lambda>m r. m(f r \<mapsto> g r)) m0 xs k = m0 k"
  by (induction xs arbitrary: m0) auto

lemma foldl_upd_distinct:
  "distinct (map f xs) \<Longrightarrow> x \<in> set xs \<Longrightarrow> foldl (\<lambda>m r. m(f r \<mapsto> g r)) m0 xs (f x) = Some (g x)"
proof (induction xs arbitrary: m0)
  case Nil
  then show ?case by simp
next
  case (Cons a xs)
  show ?case
  proof (cases "x = a")
    case True
    with Cons.prems have "f a \<notin> f ` set xs" by simp
    then have "foldl (\<lambda>m r. m(f r \<mapsto> g r)) (m0(f a \<mapsto> g a)) xs (f a)
               = (m0(f a \<mapsto> g a)) (f a)"
      by (rule foldl_upd_other)
    then have "foldl (\<lambda>m r. m(f r \<mapsto> g r)) (m0(f a \<mapsto> g a)) xs (f a) = Some (g a)"
      by (simp only: fun_upd_same)
    with True show ?thesis by (simp only: foldl_Cons)
  next
    case False
    with Cons show ?thesis by simp
  qed
qed

lemma directReplyMap_distinct:
  "distinct (map id_c ds) \<Longrightarrow> d \<in> set ds \<Longrightarrow>
   directReplyMap pm ds (id_c d) = Some (attachProfiles pm d)"
  unfolding directReplyMap_def by (rule foldl_upd_distinct)

lemma includes_parent_direct_of:
  assumes "distinct (map id_c ds)" and "d \<in> set ds" and "parent_id n = Some (id_c d)"
  shows "includes_parent (map id_c (direct_of pm ds c)) n \<longleftrightarrow> parent_id d = Some (id_c c)"
proof -
  have "(\<exists>d' \<in> set ds. parent_id d' = Some (id_c c) \<and> id_c d' = id_c d)
        \<longleftrightarrow> parent_id d = Some (id_c c)"
    using assms(1,2) by (metis distinct_map inj_on_def)
  then show ?thesis
    using assms(3) by (auto simp: includes_parent_def direct_of_def image_iff)
qed

lemma occurrences_direct_none:
  assumes "i \<notin> id_c ` set ds"
  shows "occurrences i (map (\<lambda>r. CommentRow.extend r (ReplyItem.fields ParentNull)) (direct_of pm ds c)) = []"
  using assms by (auto simp: occurrences_def direct_of_def filter_map comp_def filter_empty_conv)

lemma occurrences_nested_of:
  assumes "distinct (map id_c ds)" and "distinct (map id_c ns)"
    and "d \<in> set ds" and "n \<in> set ns" and "parent_id n = Some (id_c d)"
  shows "occurrences (id_c n) (nested_of pm ds ns c)
         = (if parent_id d = Some (id_c c)
            then [CommentRow.extend (attachProfiles pm n) (ReplyItem.fields (ParentRow (attachProfiles pm d)))]
            else [])"
proof -
  let ?inc = "includes_parent (map id_c (direct_of pm ds c))"
  have pl: "parent_lookup (directReplyMap pm ds) n = ParentRow (attachProfiles pm d)"
    using assms(1,3,5) by (simp add: parent_lookup_def directReplyMap_distinct)
  have "filter (\<lambda>r. id_c r = id_c n) (filter ?inc ns) = filter ?inc (filter (\<lambda>r. id_c r = id_c n) ns)"
    by (simp add: conj_commute)
  also have "\<dots> = filter ?inc [n]"
    by (simp only: filter_distinct_key [OF assms(2,4)])
  also have "\<dots> = (if parent_id d = Some (id_c c) then [n] else [])"
    using includes_parent_direct_of [OF assms(1,3,5), of pm c] by simp
  finally show ?thesis
    using pl by (simp add: occurrences_def nested_of_def Let_def filter_map comp_def)
qed

lemma occurrences_flatReplies_nested:
  assumes "distinct (map id_c ds)" and "distinct (map id_c ns)"
    and "d \<in> set ds" and "n \<in> set ns" and "parent_id n = Some (id_c d)"
    and "id_c n \<notin> id_c ` set ds"
  shows "occurrences (id_c n) (flatReplies gt pm ds ns c)
         = (if parent_id d = Some (id_c c)
            then [CommentRow.extend (attachProfiles pm n) (ReplyItem.fields (ParentRow (attachProfiles pm d)))]
            else [])"
proof -
  let ?xs = "map (\<lambda>r. CommentRow.extend r (ReplyItem.fields ParentNull)) (direct_of pm ds c)
             @ nested_of pm ds ns c"
  have xs: "filter (\<lambda>r. id_c r = id_c n) ?xs
        = (if parent_id d = Some (id_c c)
            then [CommentRow.extend (attachProfiles pm n) (ReplyItem.fields (ParentRow (attachProfiles pm d)))]
            else [])"
    using occurrences_nested_of [OF assms(1-5), of pm c] occurrences_direct_none [OF assms(6), of pm c]
    by (simp add: occurrences_def)
  show ?thesis
  proof (cases "parent_id d = Some (id_c c)")
    case True
    with xs show ?thesis
      by (simp add: occurrences_def flatReplies_def filter_sort_array_single)
  next
    case False
    with xs show ?thesis
      by (simp add: occurrences_def flatReplies_def filter_sort_array_empty)
  qed
qed

lemma set_all_replies_withReplies:
  "set (all_replies (withReplies gt pm tops ds ns))
   = (\<Union>c \<in> set tops. set (map (\<lambda>r. CommentRow.extend r (ReplyItem.fields ParentNull)) (direct_of pm ds c))
        \<union> set (nested_of pm ds ns c))"
  by (auto simp: all_replies_withReplies flatReplies_def set_sort_array)

lemma id_c_nested_of: "r \<in> set (nested_of pm ds ns c) \<Longrightarrow> id_c r \<in> id_c ` set ns"
  by (auto simp: nested_of_def Let_def)

text \<open>
  Claim C2. When the identifiers of the three collections are pairwise distinct, a nested
  reply whose \<^verbatim>\<open>parent_id\<close> is the identifier of a direct reply, whose own \<^verbatim>\<open>parent_id\<close>
  is the identifier of a top-level comment of the page, occurs exactly once in the reply
  lists of all groups together, with its profile attached and the back-reference set to
  that direct reply (profile attached); and every reply item whose identifier is that of
  a direct reply has the back-reference \<^verbatim>\<open>null\<close>.
\<close>

theorem nested_reply_exactly_once:
  assumes "distinct_ids tops ds ns"
  shows "(\<forall>n \<in> set ns. \<forall>d \<in> set ds.
            parent_id n = Some (id_c d) \<and> (\<exists>c \<in> set tops. parent_id d = Some (id_c c)) \<longrightarrow>
            occurrences (id_c n) (all_replies (withReplies gt pm tops ds ns))
            = [CommentRow.extend (attachProfiles pm n)
                 (ReplyItem.fields (ParentRow (attachProfiles pm d)))])
       \<and> (\<forall>r \<in> set (all_replies (withReplies gt pm tops ds ns)).
            id_c r \<in> id_c ` set ds \<longrightarrow> parent r = ParentNull)"
proof (intro conjI ballI impI)
  fix n d
  assume n: "n \<in> set ns" and d: "d \<in> set ds"
    and p: "parent_id n = Some (id_c d) \<and> (\<exists>c \<in> set tops. parent_id d = Some (id_c c))"
  from assms n have dt: "distinct (map id_c tops)" and dd: "distinct (map id_c ds)"
    and dn: "distinct (map id_c ns)" and nd: "id_c n \<notin> id_c ` set ds"
    by (auto simp: distinct_ids_def)
  let ?item = "CommentRow.extend (attachProfiles pm n)
                 (ReplyItem.fields (ParentRow (attachProfiles pm d)))"
  have "occurrences (id_c n) (all_replies (withReplies gt pm tops ds ns))
        = concat (map (\<lambda>c. occurrences (id_c n) (flatReplies gt pm ds ns c)) tops)"
    by (simp add: all_replies_withReplies occurrences_concat comp_def)
  also have "\<dots> = concat (map (\<lambda>c. if parent_id d = Some (id_c c) then [?item] else []) tops)"
    using p by (simp only: occurrences_flatReplies_nested [OF dd dn d n _ nd])
  also have "\<dots> = (if \<exists>c \<in> set tops. parent_id d = Some (id_c c) then [?item] else [])"
    by (rule concat_map_if_Some_key [OF dt])
  finally show "occurrences (id_c n) (all_replies (withReplies gt pm tops ds ns)) = [?item]"
    using p by simp
next
  fix r
  assume r: "r \<in> set (all_replies (withReplies gt pm tops ds ns))"
    and i: "id_c r \<in> id_c ` set ds"
  from assms have disj: "id_c ` set ds \<inter> id_c ` set ns = {}"
    by (auto simp: distinct_ids_def)
  from r obtain c where "c \<in> set tops"
    and "r \<in> set (map (\<lambda>r. CommentRow.extend r (ReplyItem.fields ParentNull)) (direct_of pm ds c))
         \<or> r \<in> set (nested_of pm ds ns c)"
    unfolding set_all_replies_withReplies by blast
  then show "parent r = ParentNull"
    using i disj id_c_nested_of [of r pm ds ns c] by auto
qed

theorem nested_reply_exactly_once_witness:
  "distinct_ids [ex_A] [ex_B, ex_C, ex_E] [ex_D]
   \<and> ex_D \<in> set [ex_D] \<and> ex_B \<in> set [ex_B, ex_C, ex_E]
   \<and> parent_id ex_D = Some (id_c ex_B) \<and> parent_id ex_B = Some (id_c ex_A)
   \<and> occurrences (id_c ex_D) (all_replies (withReplies ex_getTime Map.empty [ex_A] [ex_B, ex_C, ex_E] [ex_D]))
       = [CommentRow.extend (attachProfiles Map.empty ex_D)
            (ReplyItem.fields (ParentRow (attachProfiles Map.empty ex_B)))]
   \<and> CommentRow.extend (attachProfiles Map.empty ex_C) (ReplyItem.fields ParentNull)
       \<in> set (all_replies (withReplies ex_getTime Map.empty [ex_A] [ex_B, ex_C, ex_E] [ex_D]))
   \<and> id_c ex_C \<in> id_c ` set [ex_B, ex_C, ex_E]
   \<and> parent (CommentRow.extend (attachProfiles Map.empty ex_C) (ReplyItem.fields ParentNull)) = ParentNull"
proof -
  have h: "distinct_ids [ex_A] [ex_B, ex_C, ex_E] [ex_D]"
    by (simp add: distinct_ids_def ex_defs)
  have p: "parent_id ex_D = Some (id_c ex_B)" "parent_id ex_B = Some (id_c ex_A)"
    by (simp_all add: ex_defs)
  have m: "CommentRow.extend (attachProfiles Map.empty ex_C) (ReplyItem.fields ParentNull)
       \<in> set (all_replies (withReplies ex_getTime Map.empty [ex_A] [ex_B, ex_C, ex_E] [ex_D]))"
    by (simp add: set_all_replies_withReplies direct_of_def ex_defs)
  from nested_reply_exactly_once [OF h, of ex_getTime Map.empty] h p m
  show ?thesis by simp
qed

subsection \<open>Orphaned nested replies\<close>

lemma includes_parent_not_orphan:
  "includes_parent (map id_c (direct_of pm ds c)) n \<Longrightarrow> \<not> orphan ds n"
  by (auto simp: includes_parent_def orphan_def direct_of_def split: option.splits)

lemma nested_of_without_orphans:
  "nested_of pm ds (filter (\<lambda>n. \<not> orphan ds n) ns) c = nested_of pm ds ns c"
proof -
  have "filter (includes_parent (map id_c (direct_of pm ds c))) (filter (\<lambda>n. \<not> orphan ds n) ns)
        = filter (includes_parent (map id_c (direct_of pm ds c))) ns"
    using includes_parent_not_orphan [of pm ds c]
    by (auto simp: filter_filter intro!: filter_cong)
  then show ?thesis
    by (simp add: nested_of_def Let_def)
qed

lemma nested_of_not_orphan:
  assumes "r \<in> set (nested_of pm ds ns c)"
  shows "\<not> orphan ds r \<and> parent r \<noteq> ParentNull"
proof -
  from assms obtain n where n: "n \<in> set ns" "includes_parent (map id_c (direct_of pm ds c)) n"
    and r: "r = CommentRow.extend (attachProfiles pm n)
                 (ReplyItem.fields (parent_lookup (directReplyMap pm ds) n))"
    by (auto simp: nested_of_def Let_def)
  from n(2) have "\<not> orphan ds n" by (rule includes_parent_not_orphan)
  moreover have "orphan ds r = orphan ds n"
    by (simp add: r orphan_def CommentRow.defs attachProfiles_def)
  moreover have "parent r \<noteq> ParentNull"
    by (simp add: r parent_lookup_def split: option.splits)
  ultimately show ?thesis by simp
qed

text \<open>
  Claim C5. For every input, the result is the one obtained with the orphans removed from
  \<^verbatim>\<open>nestedReplies\<close>, so an orphan contributes no reply item; there is one group for every
  top-level comment; and every reply item that was emitted for a nested reply (its
  back-reference is not \<^verbatim>\<open>null\<close>) is no orphan. The assembly has no failing step: its
  model is a total function without an error result.
\<close>

theorem orphan_nested_reply_excluded:
  "withReplies getTime pm tops ds ns
     = withReplies getTime pm tops ds (filter (\<lambda>n. \<not> orphan ds n) ns)
   \<and> length (withReplies getTime pm tops ds ns) = length tops
   \<and> (\<forall>r \<in> set (all_replies (withReplies getTime pm tops ds ns)).
         parent r \<noteq> ParentNull \<longrightarrow> \<not> orphan ds r)"
proof (intro conjI ballI impI)
  show "withReplies getTime pm tops ds ns
        = withReplies getTime pm tops ds (filter (\<lambda>n. \<not> orphan ds n) ns)"
    by (simp add: withReplies_def flatReplies_def nested_of_without_orphans)
  show "length (withReplies getTime pm tops ds ns) = length tops"
    by (simp add: withReplies_def)
next
  fix r
  assume r: "r \<in> set (all_replies (withReplies getTime pm tops ds ns))"
    and p: "parent r \<noteq> ParentNull"
  from r obtain c where
    "r \<in> set (map (\<lambda>r. CommentRow.extend r (ReplyItem.fields ParentNull)) (direct_of pm ds c))
         \<or> r \<in> set (nested_of pm ds ns c)"
    unfolding set_all_replies_withReplies by blast
  with p have "r \<in> set (nested_of pm ds ns c)" by auto
  then show "\<not> orphan ds r" by (simp add: nested_of_not_orphan)
qed

text \<open>The scenario of the specification, with an orphan added.\<close>

lemma scenario_page: "map (\<lambda>g. (id_c g, map (\<lambda>r. (id_c r, parent r)) (replies g)))
        (withReplies ex_getTime Map.empty [ex_A] [ex_B, ex_C] [ex_D, ex_O])
      = [(str ''A'', [(str ''B'', ParentNull), (str ''C'', ParentNull), (str ''D'', ParentRow ex_B)])]"
  by (simp add: withReplies_def flatReplies_def sort_array_def direct_of_def nested_of_def
      includes_parent_def cmp_created_def ex_getTime_def ex_defs CommentRow.defs ReplyItem.defs
      CommentWithReplies.defs attachProfiles_def parent_lookup_def directReplyMap_def)

theorem orphan_nested_reply_excluded_witness:
  "orphan [ex_B, ex_C] ex_O
   \<and> filter (\<lambda>n. \<not> orphan [ex_B, ex_C] n) [ex_D, ex_O] = [ex_D]
   \<and> withReplies ex_getTime Map.empty [ex_A] [ex_B, ex_C] [ex_D, ex_O]
       = withReplies ex_getTime Map.empty [ex_A] [ex_B, ex_C] [ex_D]
   \<and> CommentRow.extend ex_D (ReplyItem.fields (ParentRow ex_B))
       \<in> set (all_replies (withReplies ex_getTime Map.empty [ex_A] [ex_B, ex_C] [ex_D, ex_O]))
   \<and> \<not> orphan [ex_B, ex_C] (CommentRow.extend ex_D (ReplyItem.fields (ParentRow ex_B)))"
proof -
  have o: "orphan [ex_B, ex_C] ex_O" and f: "filter (\<lambda>n. \<not> orphan [ex_B, ex_C] n) [ex_D, ex_O] = [ex_D]"
    by (simp_all add: orphan_def ex_defs)
  have m: "CommentRow.extend ex_D (ReplyItem.fields (ParentRow ex_B))
       \<in> set (all_replies (withReplies ex_getTime Map.empty [ex_A] [ex_B, ex_C] [ex_D, ex_O]))"
    by (simp add: set_all_replies_withReplies direct_of_def nested_of_def includes_parent_def
        parent_lookup_def directReplyMap_def attachProfiles_def ex_defs)
  from orphan_nested_reply_excluded [of ex_getTime Map.empty "[ex_A]" "[ex_B, ex_C]" "[ex_D, ex_O]"] o f m
  show ?thesis by simp
qed

subsection \<open>Order of a reply list\<close>

text \<open>
  Where every creation timestamp is a date, the sort is the stable insertion sort of the
  library on the negated time value.
\<close>

lemma insert_sorted_insort_key:
  assumes "getTime (created_at x) \<noteq> None" and "\<forall>y \<in> set ys. getTime (created_at y) \<noteq> None"
  shows "insert_sorted (cmp_created getTime) x ys = insort_key (neg_time getTime) x ys"
  using assms by (induction ys) (auto simp: cmp_created_def neg_time_def)

lemma sort_array_sort_key:
  assumes "\<forall>y \<in> set xs. getTime (created_at y) \<noteq> None"
  shows "sort_array (cmp_created getTime) xs = sort_key (neg_time getTime) xs"
  using assms
proof (induction xs)
  case Nil
  then show ?case by (simp add: sort_array_def)
next
  case (Cons x xs)
  then have IH: "sort_array (cmp_created getTime) xs = sort_key (neg_time getTime) xs"
    by simp
  have "\<forall>y \<in> set (sort_key (neg_time getTime) xs). getTime (created_at y) \<noteq> None"
    using Cons.prems by simp
  with Cons.prems IH show ?case
    by (simp add: sort_array_def insert_sorted_insort_key)
qed

lemma sorted_time_ge:
  assumes "\<forall>y \<in> set xs. getTime (created_at y) \<noteq> None"
  shows "sorted_wrt (time_ge getTime) (sort_array (cmp_created getTime) xs)"
proof -
  let ?ys = "sort_key (neg_time getTime) xs"
  have "sorted_wrt (\<lambda>a b. neg_time getTime a \<le> neg_time getTime b) ?ys"
    using sorted_sort_key [of "neg_time getTime" xs] by (simp add: sorted_map)
  moreover have "time_ge getTime a b"
    if "a \<in> set ?ys" and "b \<in> set ?ys" and le: "neg_time getTime a \<le> neg_time getTime b"
    for a b
  proof -
    from that assms obtain ta tb
      where "getTime (created_at a) = Some ta" and "getTime (created_at b) = Some tb"
      by fastforce
    with le show ?thesis
      by (simp add: neg_time_def time_ge_def)
  qed
  ultimately have "sorted_wrt (time_ge getTime) ?ys"
    by (rule sorted_wrt_mono_rel [rotated])
  then show ?thesis
    by (simp add: sort_array_sort_key [OF assms])
qed

lemma stable_sort_array:
  assumes "\<forall>y \<in> set xs. getTime (created_at y) \<noteq> None"
  shows "filter (created_at_time getTime t) (sort_array (cmp_created getTime) xs)
         = filter (created_at_time getTime t) xs"
proof -
  have eq: "\<And>ys. \<forall>y \<in> set ys. getTime (created_at y) \<noteq> None \<Longrightarrow>
      filter (created_at_time getTime t) ys = filter (\<lambda>y. neg_time getTime y = - t) ys"
    by (rule filter_cong) (auto simp: created_at_time_def neg_time_def)
  have "filter (created_at_time getTime t) (sort_key (neg_time getTime) xs)
        = filter (\<lambda>y. neg_time getTime y = - t) (sort_key (neg_time getTime) xs)"
    using assms by (intro eq) simp
  also have "\<dots> = filter (\<lambda>y. neg_time getTime y = - t) xs"
    by (rule sort_key_stable)
  also have "\<dots> = filter (created_at_time getTime t) xs"
    using assms by (simp add: eq)
  finally show ?thesis
    by (simp add: sort_array_sort_key [OF assms])
qed

lemma replies_withReplies:
  "i < length tops \<Longrightarrow>
   replies (withReplies getTime pm tops ds ns ! i) = flatReplies getTime pm ds ns (tops ! i)"
  by (simp add: withReplies_def)

lemma merged_times:
  assumes "\<forall>r \<in> set ds \<union> set ns. getTime (created_at r) \<noteq> None"
  shows "\<forall>y \<in> set (map (\<lambda>r. CommentRow.extend r (ReplyItem.fields ParentNull)) (direct_of pm ds c)
                     @ nested_of pm ds ns c). getTime (created_at y) \<noteq> None"
  using assms by (auto simp: direct_of_def nested_of_def Let_def)

text \<open>
  Claim C3, as amended. Where the creation timestamps of all replies are dates, the reply
  list of every group is sorted descending by creation time, and the replies of one
  creation time stand in the order they have in the unsorted merge: the direct replies in
  the order of \<^verbatim>\<open>directReplies\<close>, then the nested replies in the order of
  \<^verbatim>\<open>nestedReplies\<close>. The identifier plays no part in the order.
\<close>

theorem reply_list_sorted_stable:
  assumes "\<forall>r \<in> set ds \<union> set ns. getTime (created_at r) \<noteq> None"
    and "i < length tops"
  shows "sorted_wrt (time_ge getTime) (replies (withReplies getTime pm tops ds ns ! i))
       \<and> (\<forall>t. filter (created_at_time getTime t) (replies (withReplies getTime pm tops ds ns ! i))
              = filter (created_at_time getTime t)
                  (map (\<lambda>r. CommentRow.extend r (ReplyItem.fields ParentNull))
                       (direct_of pm ds (tops ! i))
                   @ nested_of pm ds ns (tops ! i)))"
  using merged_times [OF assms(1), of pm "tops ! i"] assms(2)
  by (simp only: replies_withReplies flatReplies_def sorted_time_ge stable_sort_array simp_thms)

text \<open>
  Claim C3 as stated fails: three direct replies of one creation time arrive in the order
  \<open>b\<close>, \<open>a\<close>, \<open>c\<close> and are emitted in that order, which is ordered by identifier in
  neither direction.
\<close>

theorem reply_ties_not_by_identifier:
  "map (\<lambda>g. map id_c (replies g))
       (withReplies ex_getTime Map.empty [ex_A] [ex_Tb, ex_Ta, ex_Tc] [])
     = [[str ''b'', str ''a'', str ''c'']]
   \<and> \<not> (\<forall>g \<in> set (withReplies ex_getTime Map.empty [ex_A] [ex_Tb, ex_Ta, ex_Tc] []).
           sorted_wrt (spec_order True ex_getTime) (replies g))
   \<and> \<not> (\<forall>g \<in> set (withReplies ex_getTime Map.empty [ex_A] [ex_Tb, ex_Ta, ex_Tc] []).
           sorted_wrt (spec_order False ex_getTime) (replies g))"
  by (simp add: withReplies_def flatReplies_def sort_array_def direct_of_def nested_of_def
      includes_parent_def cmp_created_def ex_getTime_def ex_defs CommentRow.defs ReplyItem.defs
      CommentWithReplies.defs attachProfiles_def spec_order_def)

theorem reply_list_sorted_stable_witness:
  "list_all (\<lambda>r. ex_getTime (created_at r) \<noteq> None) ([ex_B, ex_Tb, ex_Ta, ex_C] @ [ex_D])
   \<and> (0::nat) < length [ex_A]
   \<and> sorted_wrt (time_ge ex_getTime)
        (replies (withReplies ex_getTime Map.empty [ex_A] [ex_B, ex_Tb, ex_Ta, ex_C] [ex_D] ! 0))
   \<and> filter (created_at_time ex_getTime 9)
        (replies (withReplies ex_getTime Map.empty [ex_A] [ex_B, ex_Tb, ex_Ta, ex_C] [ex_D] ! 0))
       = filter (created_at_time ex_getTime 9)
           (map (\<lambda>r. CommentRow.extend r (ReplyItem.fields ParentNull))
                (direct_of Map.empty [ex_B, ex_Tb, ex_Ta, ex_C] ([ex_A] ! 0))
            @ nested_of Map.empty [ex_B, ex_Tb, ex_Ta, ex_C] [ex_D] ([ex_A] ! 0))
   \<and> map id_c (replies (withReplies ex_getTime Map.empty [ex_A] [ex_B, ex_Tb, ex_Ta, ex_C] [ex_D] ! 0))
       = [str ''B'', str ''b'', str ''a'', str ''C'', str ''D'']"
proof -
  have h: "\<forall>r \<in> set [ex_B, ex_Tb, ex_Ta, ex_C] \<union> set [ex_D]. ex_getTime (created_at r) \<noteq> None"
    by (simp add: ex_getTime_def ex_defs)
  have l: "(0::nat) < length [ex_A]" by simp
  have e: "map id_c (replies (withReplies ex_getTime Map.empty [ex_A] [ex_B, ex_Tb, ex_Ta, ex_C] [ex_D] ! 0))
       = [str ''B'', str ''b'', str ''a'', str ''C'', str ''D'']"
    by (simp add: withReplies_def flatReplies_def sort_array_def direct_of_def nested_of_def
      includes_parent_def cmp_created_def ex_getTime_def ex_defs CommentRow.defs ReplyItem.defs
      CommentWithReplies.defs attachProfiles_def)
  from reply_list_sorted_stable [OF h l, of Map.empty] h l e
  show ?thesis by (simp del: nth_Cons_0)
qed

section \<open>Properties of the handlers\<close>

subsection \<open>Submitting a comment or a reply\<close>

lemma inserts_simps [simp]:
  "inserts [] = []"
  "inserts (InsertComment pid uid c p # es) = InsertComment pid uid c p # inserts es"
  "inserts (ToastError m # es) = inserts es"
  "inserts (ToastSuccess m # es) = inserts es"
  "inserts (ConsoleError # es) = inserts es"
  "inserts (FetchComments n b # es) = inserts es"
  "inserts (DeleteCommentLike x y # es) = inserts es"
  "inserts (InsertCommentLike x y # es) = inserts es"
  by (simp_all add: inserts_def)

text \<open>
  Claim C9, as amended. With a signed-in user and a route parameter, a comment or reply
  whose trimmed content is empty or longer than 1000 code units is rejected with one
  error message and no insert, and otherwise exactly one insert is issued, carrying the
  trimmed content (and the parent for a reply). Without a user or a route parameter
  nothing is inserted, whatever the content.
\<close>

theorem submission_validated_when_signed_in:
  "(user st \<noteq> None \<and> truthy (id_param st) \<longrightarrow>
      submission_as_specified (commentInput st) None (handleSubmitComment res st)
    \<and> submission_as_specified (replyInput st) (Some parentId) (handleSubmitReply res parentId st))
 \<and> (\<not> (user st \<noteq> None \<and> truthy (id_param st)) \<longrightarrow>
      inserts (snd (handleSubmitComment res st)) = []
    \<and> inserts (snd (handleSubmitReply res parentId st)) = [])"
  by (cases res)
     (auto simp: submission_as_specified_def handleSubmitComment_def handleSubmitReply_def
        truthy_def Let_def split: option.splits)

text \<open>
  Claim C9 as stated fails for a viewer whose session has ended: the reply \<open>hi\<close> is
  valid, and \<^verbatim>\<open>handleSubmitReply\<close> returns without an insert and without a message; the
  valid comment \<open>hello\<close> is not inserted either.
\<close>

theorem submission_signed_out_not_inserted:
  "user ex_signed_out = None
   \<and> trim (replyInput ex_signed_out) = str ''hi''
   \<and> handleSubmitReply Resolved (str ''A'') ex_signed_out = (ex_signed_out, [])
   \<and> \<not> submission_as_specified (replyInput ex_signed_out) (Some (str ''A''))
         (handleSubmitReply Resolved (str ''A'') ex_signed_out)
   \<and> trim (commentInput ex_signed_out) = str ''hello''
   \<and> handleSubmitComment Resolved ex_signed_out = (ex_signed_out, [ToastError msg_login_required])
   \<and> \<not> submission_as_specified (commentInput ex_signed_out) None
         (handleSubmitComment Resolved ex_signed_out)"
  by (simp add: submission_as_specified_def handleSubmitComment_def handleSubmitReply_def
      ex_signed_out_def ex_state_def trim_def is_white_space_def COMMENT_MAX_LENGTH_def str_def)

theorem submission_validated_when_signed_in_witness:
  "user ex_state \<noteq> None \<and> truthy (id_param ex_state)
   \<and> submission_as_specified (commentInput ex_state) None (handleSubmitComment Resolved ex_state)
   \<and> submission_as_specified (replyInput ex_state) (Some (str ''A''))
        (handleSubmitReply Resolved (str ''A'') ex_state)
   \<and> inserts (snd (handleSubmitComment Resolved ex_state))
       = [InsertComment (str ''post'') (str ''u1'') (str ''hello'') None]
   \<and> \<not> (user ex_signed_out \<noteq> None \<and> truthy (id_param ex_signed_out))
   \<and> inserts (snd (handleSubmitComment Resolved ex_signed_out)) = []
   \<and> inserts (snd (handleSubmitReply Resolved (str ''A'') ex_signed_out)) = []"
proof -
  have u: "user ex_state \<noteq> None \<and> truthy (id_param ex_state)"
    by (simp add: ex_state_def truthy_def str_def)
  have n: "\<not> (user ex_signed_out \<noteq> None \<and> truthy (id_param ex_signed_out))"
    by (simp add: ex_signed_out_def)
  have i: "inserts (snd (handleSubmitComment Resolved ex_state))
       = [InsertComment (str ''post'') (str ''u1'') (str ''hello'') None]"
    by (simp add: handleSubmitComment_def ex_state_def trim_def is_white_space_def
        COMMENT_MAX_LENGTH_def str_def)
  from submission_validated_when_signed_in [of ex_state Resolved "str ''A''"] submission_validated_when_signed_in [of ex_signed_out Resolved "str ''A''"] u n i
  show ?thesis by blast
qed

subsection \<open>Toggling a like\<close>

lemma length_unlike_comments [simp]: "length (unlike_comments x cs) = length cs"
  by (simp add: unlike_comments_def)

lemma length_like_comments [simp]: "length (like_comments x cs) = length cs"
  by (simp add: like_comments_def)

lemma unlike_comments_nth:
  "i < length cs \<Longrightarrow>
   unlike_comments x cs ! i =
     (if id_c (cs ! i) = x then (cs ! i)\<lparr>likes_count := max 0 (likes_count (cs ! i) - 1)\<rparr>
      else (cs ! i)\<lparr>replies :=
             map (\<lambda>r. if id_c r = x then r\<lparr>likes_count := max 0 (likes_count r - 1)\<rparr> else r)
                 (replies (cs ! i))\<rparr>)"
  by (simp add: unlike_comments_def)

lemma like_comments_nth:
  "i < length cs \<Longrightarrow>
   like_comments x cs ! i =
     (if id_c (cs ! i) = x then (cs ! i)\<lparr>likes_count := likes_count (cs ! i) + 1\<rparr>
      else (cs ! i)\<lparr>replies :=
             map (\<lambda>r. if id_c r = x then r\<lparr>likes_count := likes_count r + 1\<rparr> else r)
                 (replies (cs ! i))\<rparr>)"
  by (simp add: like_comments_def)




text \<open>
  Claim C10, as amended. After a like toggle on the identifier \<open>x\<close>, whatever its outcome,
  the comment state has the same groups and replies at the same places; every field of
  every entry other than the like count is as before; an entry with another identifier
  is unchanged; the like count of an entry is the old one or the toggled one (one more
  after a like, one less but not below zero after an unlike); and when the viewer is
  signed in and the backend call is not rejected, it is the toggled one for a group with
  the identifier \<open>x\<close> and for a reply with the identifier \<open>x\<close> in a group with another
  identifier.
\<close>

theorem toggle_like_frame:
  "length (comments (fst (handleToggleLike res x st))) = length (comments st)
   \<and> (\<forall>i < length (comments st).
        comments (fst (handleToggleLike res x st)) ! i
          = (comments st ! i)
              \<lparr>likes_count := likes_count (comments (fst (handleToggleLike res x st)) ! i),
               replies := replies (comments (fst (handleToggleLike res x st)) ! i)\<rparr>
      \<and> (id_c (comments st ! i) \<noteq> x \<longrightarrow>
           likes_count (comments (fst (handleToggleLike res x st)) ! i)
           = likes_count (comments st ! i))
      \<and> (likes_count (comments (fst (handleToggleLike res x st)) ! i) = likes_count (comments st ! i)
         \<or> likes_count (comments (fst (handleToggleLike res x st)) ! i)
           = toggled_count st x (likes_count (comments st ! i)))
      \<and> (user st \<noteq> None \<and> res \<noteq> Rejected \<and> id_c (comments st ! i) = x \<longrightarrow>
           likes_count (comments (fst (handleToggleLike res x st)) ! i)
           = toggled_count st x (likes_count (comments st ! i)))
      \<and> length (replies (comments (fst (handleToggleLike res x st)) ! i))
        = length (replies (comments st ! i))
      \<and> (\<forall>j < length (replies (comments st ! i)).
           replies (comments (fst (handleToggleLike res x st)) ! i) ! j
             = (replies (comments st ! i) ! j)
                 \<lparr>likes_count :=
                    likes_count (replies (comments (fst (handleToggleLike res x st)) ! i) ! j)\<rparr>
         \<and> (id_c (replies (comments st ! i) ! j) \<noteq> x \<longrightarrow>
              replies (comments (fst (handleToggleLike res x st)) ! i) ! j
              = replies (comments st ! i) ! j)
         \<and> (likes_count (replies (comments (fst (handleToggleLike res x st)) ! i) ! j)
              = likes_count (replies (comments st ! i) ! j)
            \<or> likes_count (replies (comments (fst (handleToggleLike res x st)) ! i) ! j)
              = toggled_count st x (likes_count (replies (comments st ! i) ! j)))
         \<and> (user st \<noteq> None \<and> res \<noteq> Rejected \<and> id_c (comments st ! i) \<noteq> x
              \<and> id_c (replies (comments st ! i) ! j) = x \<longrightarrow>
              likes_count (replies (comments (fst (handleToggleLike res x st)) ! i) ! j)
              = toggled_count st x (likes_count (replies (comments st ! i) ! j)))))"
  by (cases res; cases "user st"; cases "x \<in> likedCommentIds st")
     (simp_all add: handleToggleLike_def toggled_count_def unlike_comments_nth like_comments_nth)

text \<open>
  Claim C10 as stated fails where the count is already zero: the viewer had liked
  comment \<open>A\<close>, whose like count is \<open>0\<close>; the toggle removes the like and the count stays
  \<open>0\<close>, so it has not moved by one.
\<close>

theorem toggle_like_count_floor:
  "user ex_state = Some (str ''u1'')
   \<and> id_c (comments ex_state ! 0) = str ''A''
   \<and> likes_count (comments ex_state ! 0) = 0
   \<and> str ''A'' \<in> likedCommentIds ex_state
   \<and> str ''A'' \<notin> likedCommentIds (fst (handleToggleLike Resolved (str ''A'') ex_state))
   \<and> likes_count (comments (fst (handleToggleLike Resolved (str ''A'') ex_state)) ! 0) = 0
   \<and> \<not> changed_by_one (likes_count (comments ex_state ! 0))
         (likes_count (comments (fst (handleToggleLike Resolved (str ''A'') ex_state)) ! 0))"
  by (simp add: handleToggleLike_def unlike_comments_def changed_by_one_def ex_state_def
      ex_group_def ex_defs CommentRow.defs CommentWithReplies.defs)

theorem toggle_like_frame_witness:
  "(0::nat) < length (comments ex_state)
   \<and> (1::nat) < length (replies (comments ex_state ! 0))
   \<and> id_c (comments ex_state ! 0) \<noteq> str ''B''
   \<and> id_c (replies (comments ex_state ! 0) ! 1) \<noteq> str ''B''
   \<and> likes_count (comments (fst (handleToggleLike Resolved (str ''B'') ex_state)) ! 0)
       = likes_count (comments ex_state ! 0)
   \<and> replies (comments (fst (handleToggleLike Resolved (str ''B'') ex_state)) ! 0) ! 1
       = replies (comments ex_state ! 0) ! 1"
proof -
  have l: "(0::nat) < length (comments ex_state)"
    and lr: "(1::nat) < length (replies (comments ex_state ! 0))"
    and nb: "id_c (comments ex_state ! 0) \<noteq> str ''B''"
    and nc: "id_c (replies (comments ex_state ! 0) ! 1) \<noteq> str ''B''"
    by (simp_all add: ex_state_def ex_group_def ex_defs CommentRow.defs CommentWithReplies.defs)
  from toggle_like_frame [of Resolved "str ''B''" ex_state] l lr nb nc
  show ?thesis by blast
qed

section \<open>Soft-deleted comments\<close>

lemma insert_sorted_map:
  assumes "\<And>a b. cmp' (f a) (f b) = cmp a b"
  shows "insert_sorted cmp' (f x) (map f ys) = map f (insert_sorted cmp x ys)"
  by (induction ys) (simp_all add: assms)

lemma sort_array_map:
  assumes "\<And>a b. cmp' (f a) (f b) = cmp a b"
  shows "sort_array cmp' (map f xs) = map f (sort_array cmp xs)"
proof (induction xs)
  case Nil
  show ?case by (simp add: sort_array_def)
next
  case (Cons x xs)
  then have "sort_array cmp' (map f (x # xs)) = insert_sorted cmp' (f x) (map f (sort_array cmp xs))"
    by (simp add: sort_array_def)
  also have "\<dots> = map f (insert_sorted cmp x (sort_array cmp xs))"
    by (rule insert_sorted_map [where cmp = cmp and cmp' = cmp' and f = f]) (rule assms)
  finally show ?case by (simp add: sort_array_def)
qed

lemma soft_delete_fields [simp]:
  "id_c (soft_delete del c) = id_c c"
  "parent_id (soft_delete del c) = parent_id c"
  "created_at (soft_delete del c) = created_at c"
  "user_id (soft_delete del c) = user_id c"
  "content (soft_delete del c) = content c"
  "likes_count (soft_delete del c) = likes_count c"
  by (simp_all add: soft_delete_def split: option.splits)

lemma soft_delete_item_fields [simp]:
  "id_c (soft_delete_item del r) = id_c r"
  "created_at (soft_delete_item del r) = created_at r"
  by (simp_all add: soft_delete_item_def)

lemma attachProfiles_soft_delete:
  "attachProfiles pm (soft_delete del c) = soft_delete del (attachProfiles pm c)"
  by (simp add: attachProfiles_def soft_delete_def split: option.splits)

lemma direct_of_soft_delete:
  "direct_of pm (map (soft_delete del) ds) (soft_delete del c)
   = map (soft_delete del) (direct_of pm ds c)"
  by (simp add: direct_of_def filter_map comp_def attachProfiles_soft_delete)

lemma foldl_upd_map_option:
  assumes "\<And>r. f (h r) = f r" and "\<And>r. g' (h r) = k (g r)"
  shows "foldl (\<lambda>m r. m(f r \<mapsto> g' r)) (map_option k \<circ> m0) (map h xs)
         = map_option k \<circ> foldl (\<lambda>m r. m(f r \<mapsto> g r)) m0 xs"
proof (induction xs arbitrary: m0)
  case Nil
  show ?case by simp
next
  case (Cons x xs)
  have "(map_option k \<circ> m0)(f (h x) \<mapsto> g' (h x)) = map_option k \<circ> (m0(f x \<mapsto> g x))"
    by (rule ext) (simp add: assms)
  then show ?case
    unfolding list.map foldl_Cons by (simp only: Cons.IH)
qed

lemma directReplyMap_soft_delete:
  "directReplyMap pm (map (soft_delete del) ds) = map_option (soft_delete del) \<circ> directReplyMap pm ds"
proof -
  have "foldl (\<lambda>m r. m(id_c r \<mapsto> attachProfiles pm r)) (map_option (soft_delete del) \<circ> Map.empty)
          (map (soft_delete del) ds)
        = map_option (soft_delete del) \<circ> foldl (\<lambda>m r. m(id_c r \<mapsto> attachProfiles pm r)) Map.empty ds"
    by (rule foldl_upd_map_option) (simp_all add: attachProfiles_soft_delete)
  then show ?thesis by (simp add: directReplyMap_def)
qed

lemma parent_lookup_soft_delete:
  "parent_lookup (map_option (soft_delete del) \<circ> m) (soft_delete del n)
   = soft_delete_parent del (parent_lookup m n)"
  by (simp add: parent_lookup_def split: option.splits)

lemma includes_parent_soft_delete:
  "includes_parent ids (soft_delete del n) = includes_parent ids n"
  by (simp add: includes_parent_def)

lemma soft_delete_item_extend:
  "soft_delete_item del (CommentRow.extend c (ReplyItem.fields p))
   = CommentRow.extend (soft_delete del c) (ReplyItem.fields (soft_delete_parent del p))"
  by (simp add: soft_delete_item_def soft_delete_def CommentRow.defs ReplyItem.defs
      split: option.splits)

lemma nested_of_soft_delete:
  "nested_of pm (map (soft_delete del) ds) (map (soft_delete del) ns) (soft_delete del c)
   = map (soft_delete_item del) (nested_of pm ds ns c)"
  by (simp add: nested_of_def Let_def direct_of_soft_delete includes_parent_soft_delete
      filter_map comp_def soft_delete_item_extend attachProfiles_soft_delete
      directReplyMap_soft_delete parent_lookup_soft_delete [unfolded comp_def])

lemma cmp_created_soft_delete_item:
  "cmp_created getTime (soft_delete_item del a) (soft_delete_item del b) = cmp_created getTime a b"
  by (simp add: cmp_created_def)

lemma flatReplies_soft_delete:
  "flatReplies getTime pm (map (soft_delete del) ds) (map (soft_delete del) ns) (soft_delete del c)
   = map (soft_delete_item del) (flatReplies getTime pm ds ns c)"
proof -
  have "map (\<lambda>r. CommentRow.extend r (ReplyItem.fields ParentNull))
            (direct_of pm (map (soft_delete del) ds) (soft_delete del c))
        @ nested_of pm (map (soft_delete del) ds) (map (soft_delete del) ns) (soft_delete del c)
        = map (soft_delete_item del)
            (map (\<lambda>r. CommentRow.extend r (ReplyItem.fields ParentNull)) (direct_of pm ds c)
             @ nested_of pm ds ns c)"
    by (simp add: direct_of_soft_delete nested_of_soft_delete comp_def soft_delete_item_extend)
  then show ?thesis
    by (simp only: flatReplies_def
        sort_array_map [where cmp = "cmp_created getTime" and cmp' = "cmp_created getTime"
          and f = "soft_delete_item del", OF cmp_created_soft_delete_item])
qed

lemma soft_delete_group_extend:
  "soft_delete_group del (CommentRow.extend c (CommentWithReplies.fields rs))
   = CommentRow.extend (soft_delete del c)
       (CommentWithReplies.fields (map (soft_delete_item del) rs))"
  by (simp add: soft_delete_group_def soft_delete_def CommentRow.defs CommentWithReplies.defs
      split: option.splits)

lemma withReplies_soft_delete:
  "withReplies getTime pm (map (soft_delete del) tops) (map (soft_delete del) ds)
     (map (soft_delete del) ns)
   = map (soft_delete_group del) (withReplies getTime pm tops ds ns)"
  by (simp add: withReplies_def comp_def soft_delete_group_extend flatReplies_soft_delete
      attachProfiles_soft_delete)

lemma deleted_comment_view:
  assumes "truthy (deleted_at c)"
  shows "view_key (CommentBlock st c p) = id_c c
       \<and> view_created_at (CommentBlock st c p) = created_at c
       \<and> view_body (CommentBlock st c p) = DeletedNotice deleted_notice
       \<and> like_button (CommentBlock st c p) = None
       \<and> like_count_shown (CommentBlock st c p) = None
       \<and> \<not> reply_button (CommentBlock st c p)
       \<and> \<not> edit_button (CommentBlock st c p)
       \<and> \<not> delete_button (CommentBlock st c p)"
  using assms by (simp add: CommentBlock_def isDeleted_def)

text \<open>
  The reply form does not look at \<^verbatim>\<open>deleted_at\<close>, and neither the delete handler nor the
  reload closes it.
\<close>

lemma reply_form_soft_delete: "reply_form st (soft_delete del c) = reply_form st c"
  by (simp add: reply_form_def)

lemma handleDeleteComment_state: "fst (handleDeleteComment confirmed now res x st) = st"
  by (simp add: handleDeleteComment_def split: option.splits call_result.splits)

lemma fetchComments_replace_reply_form:
  "replyToId (fetchComments_replace getTime pm tops ds ns myLiked st) = replyToId st
   \<and> replyInput (fetchComments_replace getTime pm tops ds ns myLiked st) = replyInput st
   \<and> replySubmitting (fetchComments_replace getTime pm tops ds ns myLiked st) = replySubmitting st"
  by (simp add: fetchComments_replace_def)

text \<open>
  Claim C6 says that the reply affordance of a soft-deleted comment is disabled. The view
  of a deleted comment has no reply button, but the page renders the reply form on
  \<^verbatim>\<open>replyToId\<close> alone: the viewer opens the form below the own comment \<open>A\<close> and deletes
  \<open>A\<close>; after the reload \<open>A\<close> is shown as deleted, without a reply button, and the form is
  still there with its button enabled, and submitting it issues an insert of a reply to
  \<open>A\<close>.
\<close>

theorem reply_form_survives_soft_delete:
  "replyToId ex_state = Some (str ''A'')
   \<and> ex_deleting
       = (ex_state, [UpdateDeletedAt (str ''A'') (str ''u1'') (str ''now''),
                     ToastSuccess msg_comment_deleted, FetchComments 0 False])
   \<and> id_c (comments ex_after_delete ! 0) = str ''A''
   \<and> isDeleted (comments ex_after_delete ! 0)
   \<and> view_body (CommentBlock ex_after_delete (comments ex_after_delete ! 0) ParentUndefined)
       = DeletedNotice deleted_notice
   \<and> \<not> reply_button (CommentBlock ex_after_delete (comments ex_after_delete ! 0) ParentUndefined)
   \<and> reply_form ex_after_delete (comments ex_after_delete ! 0)
       = Some \<lparr>form_value = str ''hi'', submit_disabled = False, submit_parent = str ''A''\<rparr>
   \<and> inserts (snd (handleSubmitReply Resolved (str ''A'') ex_after_delete))
       = [InsertComment (str ''post'') (str ''u1'') (str ''hi'') (Some (str ''A''))]"
proof -
  have s: "ex_after_delete
           = ex_state\<lparr>likedCommentIds := {str ''A'', str ''B''},
                      comments := withReplies ex_getTime ex_profiles
                        [soft_delete [str ''A'' \<mapsto> str ''now''] ex_A] [ex_B, ex_C] [ex_D]\<rparr>"
    by (simp add: ex_after_delete_def ex_deleting_def fetchComments_replace_def
        handleDeleteComment_state)
  have d: "truthy (deleted_at (comments ex_after_delete ! 0))"
    and i: "id_c (comments ex_after_delete ! 0) = str ''A''"
    by (simp_all add: s withReplies_def attachProfiles_def soft_delete_def truthy_def
        CommentRow.defs ex_defs)
  have r: "replyToId ex_after_delete = Some (str ''A'')" "replyInput ex_after_delete = str ''hi''"
    "replySubmitting ex_after_delete = False" "user ex_after_delete = Some (str ''u1'')"
    "id_param ex_after_delete = Some (str ''post'')"
    by (simp_all add: s ex_state_def)
  have t: "trim (str ''hi'') = str ''hi''"
    by (simp add: trim_def is_white_space_def str_def)
  show ?thesis
    using deleted_comment_view [OF d, of ex_after_delete ParentUndefined] d i r t
    by (simp add: isDeleted_def reply_form_def handleSubmitReply_def ex_deleting_def
        handleDeleteComment_def ex_state_def COMMENT_MAX_LENGTH_def str_def)
qed

section \<open>Missing profiles\<close>

lemma clear_profiles_attachProfiles [simp]:
  "clear_profiles (attachProfiles pm c) = clear_profiles c"
  by (simp add: clear_profiles_def attachProfiles_def)

lemma clear_profiles_item_extend:
  "clear_profiles_item (CommentRow.extend c (ReplyItem.fields p))
   = CommentRow.extend (clear_profiles c) (ReplyItem.fields (clear_profiles_parent p))"
  by (simp add: clear_profiles_item_def clear_profiles_def CommentRow.defs ReplyItem.defs)

lemma clear_profiles_group_extend:
  "clear_profiles_group (CommentRow.extend c (CommentWithReplies.fields rs))
   = CommentRow.extend (clear_profiles c) (CommentWithReplies.fields (map clear_profiles_item rs))"
  by (simp add: clear_profiles_group_def clear_profiles_def CommentRow.defs CommentWithReplies.defs)

lemma map_id_c_direct_of:
  "map id_c (direct_of pm ds c) = map id_c (filter (\<lambda>r. parent_id r = Some (id_c c)) ds)"
  by (simp add: direct_of_def comp_def)

lemma clear_profiles_directReplyMap:
  "map_option clear_profiles \<circ> directReplyMap pm ds
   = foldl (\<lambda>m r. m(id_c r \<mapsto> clear_profiles r)) Map.empty ds"
proof -
  have "foldl (\<lambda>m r. m(id_c r \<mapsto> clear_profiles r)) (map_option clear_profiles \<circ> Map.empty)
          (map (\<lambda>r. r) ds)
        = map_option clear_profiles \<circ> foldl (\<lambda>m r. m(id_c r \<mapsto> attachProfiles pm r)) Map.empty ds"
    by (rule foldl_upd_map_option) simp_all
  then show ?thesis by (simp add: directReplyMap_def)
qed

lemma clear_profiles_parent_lookup:
  "clear_profiles_parent (parent_lookup m n) = parent_lookup (map_option clear_profiles \<circ> m) n"
  by (simp add: parent_lookup_def split: option.splits)

lemma clear_profiles_nested_of:
  "map clear_profiles_item (nested_of pm ds ns c)
   = map (\<lambda>n. CommentRow.extend (clear_profiles n)
                 (ReplyItem.fields
                    (parent_lookup (foldl (\<lambda>m r. m(id_c r \<mapsto> clear_profiles r)) Map.empty ds) n)))
         (filter (includes_parent (map id_c (filter (\<lambda>r. parent_id r = Some (id_c c)) ds))) ns)"
  by (simp add: nested_of_def Let_def comp_def clear_profiles_item_extend map_id_c_direct_of
      clear_profiles_parent_lookup clear_profiles_directReplyMap [unfolded comp_def])

lemma cmp_created_clear_profiles_item:
  "cmp_created getTime (clear_profiles_item a) (clear_profiles_item b) = cmp_created getTime a b"
  by (simp add: cmp_created_def clear_profiles_item_def clear_profiles_def)

lemma clear_profiles_flatReplies:
  "map clear_profiles_item (flatReplies getTime pm ds ns c)
   = map clear_profiles_item (flatReplies getTime pm' ds ns c)"
proof -
  have m: "map clear_profiles_item
          (map (\<lambda>r. CommentRow.extend r (ReplyItem.fields ParentNull)) (direct_of pm ds c)
           @ nested_of pm ds ns c)
        = map clear_profiles_item
          (map (\<lambda>r. CommentRow.extend r (ReplyItem.fields ParentNull)) (direct_of pm' ds c)
           @ nested_of pm' ds ns c)"
    by (simp add: clear_profiles_nested_of)
       (simp add: direct_of_def comp_def clear_profiles_item_extend)
  have s: "map clear_profiles_item (sort_array (cmp_created getTime) xs)
           = sort_array (cmp_created getTime) (map clear_profiles_item xs)" for xs
    by (rule sort_array_map [where cmp = "cmp_created getTime" and cmp' = "cmp_created getTime"
          and f = clear_profiles_item, OF cmp_created_clear_profiles_item, symmetric])
  show ?thesis
    by (simp only: flatReplies_def s m)
qed

lemma clear_profiles_withReplies:
  "map clear_profiles_group (withReplies getTime pm tops ds ns)
   = map clear_profiles_group (withReplies getTime pm' tops ds ns)"
  by (simp add: withReplies_def comp_def clear_profiles_group_extend
      clear_profiles_flatReplies [of getTime pm ds ns _ pm'])

lemma profiles_attachProfiles [simp]: "profiles (attachProfiles pm c) = pm (user_id c)"
  by (simp add: attachProfiles_def)

lemma user_id_attachProfiles [simp]: "user_id (attachProfiles pm c) = user_id c"
  by (simp add: attachProfiles_def)

lemma profiles_extend [simp]: "profiles (CommentRow.extend c m) = profiles c"
  by (simp add: CommentRow.defs)

lemma user_id_extend [simp]: "user_id (CommentRow.extend c m) = user_id c"
  by (simp add: CommentRow.defs)

lemma profiles_flatReplies:
  assumes "r \<in> set (flatReplies getTime pm ds ns c)"
  shows "profiles r = pm (user_id r)"
  using assms
  by (auto simp: flatReplies_def set_sort_array direct_of_def nested_of_def Let_def)

lemma direct_reply_emitted:
  assumes "d \<in> set ds" and "parent_id d = Some (id_c c)"
  shows "CommentRow.extend (attachProfiles pm d) (ReplyItem.fields ParentNull)
         \<in> set (flatReplies getTime pm ds ns c)"
  using assms by (auto simp: flatReplies_def set_sort_array direct_of_def)

lemma nested_reply_emitted:
  assumes "n \<in> set ns" and "d \<in> set ds" and "parent_id n = Some (id_c d)"
    and "parent_id d = Some (id_c c)"
  shows "CommentRow.extend (attachProfiles pm n)
           (ReplyItem.fields (parent_lookup (directReplyMap pm ds) n))
         \<in> set (flatReplies getTime pm ds ns c)"
proof -
  have "includes_parent (map id_c (direct_of pm ds c)) n"
    using assms(2-4) by (auto simp: includes_parent_def direct_of_def image_iff)
  with assms(1) show ?thesis
    by (auto simp: flatReplies_def set_sort_array nested_of_def Let_def)
qed

lemma truncate_withReplies:
  "i < length tops \<Longrightarrow>
   CommentRow.truncate (withReplies getTime pm tops ds ns ! i) = attachProfiles pm (tops ! i)"
  by (simp add: withReplies_def)

text \<open>
  Claim C7, as amended. For every profile lookup there is one group for every top-level
  comment, at its place, holding the comment with the result of the lookup as its
  profile; every direct reply to that comment and every nested reply to such a direct
  reply is in the reply list of the group, also with the result of the lookup as its
  profile. For a missing entry that result is \<^verbatim>\<open>null\<close>: no profile object is attached.
  The view shows a comment without a profile object under the placeholder nickname and
  the placeholder initial. Leaving the profile fields aside, the assembled page is the
  same for every lookup. No step can fail on a missing entry: the lookup is total.
\<close>

theorem missing_profile_placeholder:
  "length (withReplies getTime pm tops ds ns) = length tops
   \<and> (\<forall>i < length tops.
        CommentRow.truncate (withReplies getTime pm tops ds ns ! i) = attachProfiles pm (tops ! i)
      \<and> (\<forall>d \<in> set ds. parent_id d = Some (id_c (tops ! i)) \<longrightarrow>
            CommentRow.extend (attachProfiles pm d) (ReplyItem.fields ParentNull)
              \<in> set (replies (withReplies getTime pm tops ds ns ! i))
          \<and> (\<forall>n \<in> set ns. parent_id n = Some (id_c d) \<longrightarrow>
                CommentRow.extend (attachProfiles pm n)
                  (ReplyItem.fields (parent_lookup (directReplyMap pm ds) n))
                \<in> set (replies (withReplies getTime pm tops ds ns ! i)))))
   \<and> map clear_profiles_group (withReplies getTime pm tops ds ns)
     = map clear_profiles_group (withReplies getTime pm' tops ds ns)
   \<and> map id_c (withReplies getTime pm tops ds ns) = map id_c tops
   \<and> (\<forall>g \<in> set (withReplies getTime pm tops ds ns).
        profiles g = pm (user_id g) \<and> (\<forall>r \<in> set (replies g). profiles r = pm (user_id r)))
   \<and> (pm (user_id c) = None \<longrightarrow>
        attachProfiles pm c = c\<lparr>profiles := None\<rparr> \<and> \<not> profile_attached (attachProfiles pm c))
   \<and> (\<not> profile_attached c \<longrightarrow>
        view_nickname (CommentBlock st c p) = unknown_nickname
      \<and> view_avatar (CommentBlock st c p) = Initial question_mark)"
proof (intro conjI)
  show "length (withReplies getTime pm tops ds ns) = length tops"
    by (simp add: withReplies_def)
  show "\<forall>i < length tops.
        CommentRow.truncate (withReplies getTime pm tops ds ns ! i) = attachProfiles pm (tops ! i)
      \<and> (\<forall>d \<in> set ds. parent_id d = Some (id_c (tops ! i)) \<longrightarrow>
            CommentRow.extend (attachProfiles pm d) (ReplyItem.fields ParentNull)
              \<in> set (replies (withReplies getTime pm tops ds ns ! i))
          \<and> (\<forall>n \<in> set ns. parent_id n = Some (id_c d) \<longrightarrow>
                CommentRow.extend (attachProfiles pm n)
                  (ReplyItem.fields (parent_lookup (directReplyMap pm ds) n))
                \<in> set (replies (withReplies getTime pm tops ds ns ! i))))"
    by (simp add: truncate_withReplies replies_withReplies direct_reply_emitted
        nested_reply_emitted)
  show "map clear_profiles_group (withReplies getTime pm tops ds ns)
     = map clear_profiles_group (withReplies getTime pm' tops ds ns)"
    by (rule clear_profiles_withReplies)
  show "map id_c (withReplies getTime pm tops ds ns) = map id_c tops"
    by (simp add: withReplies_def comp_def)
  show "\<forall>g \<in> set (withReplies getTime pm tops ds ns).
        profiles g = pm (user_id g) \<and> (\<forall>r \<in> set (replies g). profiles r = pm (user_id r))"
    by (auto simp: withReplies_def profiles_flatReplies)
  show "pm (user_id c) = None \<longrightarrow>
        attachProfiles pm c = c\<lparr>profiles := None\<rparr> \<and> \<not> profile_attached (attachProfiles pm c)"
    by (simp add: attachProfiles_def profile_attached_def)
  show "\<not> profile_attached c \<longrightarrow>
        view_nickname (CommentBlock st c p) = unknown_nickname
      \<and> view_avatar (CommentBlock st c p) = Initial question_mark"
    by (simp add: CommentBlock_def profile_nickname_def profile_avatar_url_def or_else_def
        truthy_def question_mark_def profile_attached_def)
qed

text \<open>
  Claim C7 as stated fails in one point: no placeholder profile is attached. The author
  of \<open>A\<close>, \<open>B\<close>, \<open>C\<close> and \<open>D\<close> has no entry in the lookup; the group of \<open>A\<close> and its three
  replies are emitted, and each carries \<^verbatim>\<open>null\<close> where a profile would be.
\<close>

theorem missing_profile_null_attached:
  "ex_profiles (user_id ex_A) = None \<and> ex_profiles (user_id ex_B) = None
   \<and> map (\<lambda>g. (id_c g, profiles g, map (\<lambda>r. (id_c r, profiles r)) (replies g)))
        (withReplies ex_getTime ex_profiles [ex_A] [ex_B, ex_C] [ex_D])
     = [(str ''A'', None, [(str ''B'', None), (str ''C'', None), (str ''D'', None)])]
   \<and> \<not> profile_attached (withReplies ex_getTime ex_profiles [ex_A] [ex_B, ex_C] [ex_D] ! 0)
   \<and> \<not> list_ex profile_attached
         (replies (withReplies ex_getTime ex_profiles [ex_A] [ex_B, ex_C] [ex_D] ! 0))"
  by (simp add: withReplies_def flatReplies_def sort_array_def direct_of_def nested_of_def
      includes_parent_def cmp_created_def ex_getTime_def ex_defs CommentRow.defs ReplyItem.defs
      CommentWithReplies.defs attachProfiles_def parent_lookup_def directReplyMap_def
      ex_profiles_def profile_attached_def)

theorem missing_profile_placeholder_witness:
  "(0::nat) < length [ex_A]
   \<and> ex_B \<in> set [ex_B, ex_C] \<and> parent_id ex_B = Some (id_c ([ex_A] ! 0))
   \<and> ex_D \<in> set [ex_D] \<and> parent_id ex_D = Some (id_c ex_B)
   \<and> ex_profiles (user_id ex_B) = None \<and> ex_profiles (user_id ex_D) = None
   \<and> CommentRow.truncate (withReplies ex_getTime ex_profiles [ex_A] [ex_B, ex_C] [ex_D] ! 0)
       = attachProfiles ex_profiles ([ex_A] ! 0)
   \<and> CommentRow.extend (attachProfiles ex_profiles ex_B) (ReplyItem.fields ParentNull)
       \<in> set (replies (withReplies ex_getTime ex_profiles [ex_A] [ex_B, ex_C] [ex_D] ! 0))
   \<and> CommentRow.extend (attachProfiles ex_profiles ex_D)
         (ReplyItem.fields (parent_lookup (directReplyMap ex_profiles [ex_B, ex_C]) ex_D))
       \<in> set (replies (withReplies ex_getTime ex_profiles [ex_A] [ex_B, ex_C] [ex_D] ! 0))
   \<and> attachProfiles ex_profiles ex_B = ex_B\<lparr>profiles := None\<rparr>
   \<and> \<not> profile_attached (attachProfiles ex_profiles ex_B)
   \<and> view_nickname (CommentBlock ex_state (attachProfiles ex_profiles ex_B) ParentNull)
       = unknown_nickname
   \<and> view_avatar (CommentBlock ex_state (attachProfiles ex_profiles ex_B) ParentNull)
       = Initial question_mark"
proof -
  have l: "(0::nat) < length [ex_A]" by simp
  have b: "ex_B \<in> set [ex_B, ex_C]" "parent_id ex_B = Some (id_c ([ex_A] ! 0))"
    and d: "ex_D \<in> set [ex_D]" "parent_id ex_D = Some (id_c ex_B)"
    and m: "ex_profiles (user_id ex_B) = None" "ex_profiles (user_id ex_D) = None"
    by (simp_all add: ex_profiles_def ex_defs)
  from m(1) have a: "\<not> profile_attached (attachProfiles ex_profiles ex_B)"
    by (simp add: attachProfiles_def profile_attached_def)
  from missing_profile_placeholder
         [of ex_getTime ex_profiles "[ex_A]" "[ex_B, ex_C]" "[ex_D]" _ ex_B ex_state ParentNull]
       missing_profile_placeholder
         [of ex_getTime ex_profiles "[ex_A]" "[ex_B, ex_C]" "[ex_D]" _
             "attachProfiles ex_profiles ex_B" ex_state ParentNull] l b d m a
  show ?thesis by (simp del: nth_Cons_0)
qed

section \<open>The assembly changes none of its inputs\<close>

lemma cell_at_append:
  "cell_at (s @ t) a = (if a < length s then cell_at s a else cell_at t (a - length s))"
  by (auto simp: cell_at_def nth_append)

lemma cell_at_Nil: "cell_at [] a = None"
  by (simp add: cell_at_def)

lemma cell_at_Cons: "cell_at (x # xs) a = (if a = 0 then Some x else cell_at xs (a - 1))"
  by (cases a) (simp_all add: cell_at_def)

lemma cell_at_appends: "cell_at s a = Some x \<Longrightarrow> cell_at (s @ t) a = Some x"
  by (auto simp: cell_at_def nth_append split: if_splits)

lemma cell_at_update:
  "cell_at (s[a := c]) b = (if b = a \<and> a < length s then Some c else cell_at s b)"
  by (simp add: cell_at_def)

lemma cell_at_less: "cell_at s a = Some x \<Longrightarrow> a < length s"
  by (simp add: cell_at_def split: if_splits)

lemma get_rows_cell: "get_rows s a = Some xs \<longleftrightarrow> cell_at s a = Some (Rows xs)"
  by (simp add: get_rows_def split: option.splits cell.splits)

lemma get_ids_cell: "get_ids s a = Some xs \<longleftrightarrow> cell_at s a = Some (Ids xs)"
  by (simp add: get_ids_def split: option.splits cell.splits)

lemma get_items_cell: "get_items s a = Some xs \<longleftrightarrow> cell_at s a = Some (Items xs)"
  by (simp add: get_items_def split: option.splits cell.splits)

lemma get_profile_map_cell:
  "get_profile_map s a = Some m \<longleftrightarrow> cell_at s a = Some (ProfileMap m)"
  by (simp add: get_profile_map_def split: option.splits cell.splits)

lemma get_row_map_cell: "get_row_map s a = Some m \<longleftrightarrow> cell_at s a = Some (RowMap m)"
  by (simp add: get_row_map_def split: option.splits cell.splits)

lemmas get_cell = get_rows_cell get_ids_cell get_items_cell get_profile_map_cell get_row_map_cell

lemma get_appends:
  "get_rows s a = Some xs \<Longrightarrow> get_rows (s @ t) a = Some xs"
  "get_profile_map s a = Some pm \<Longrightarrow> get_profile_map (s @ t) a = Some pm"
  "get_row_map s a = Some m \<Longrightarrow> get_row_map (s @ t) a = Some m"
  by (simp_all add: get_cell cell_at_appends)

lemma assemble_group_pure:
  assumes "get_rows s dr = Some ds" and "get_rows s nr = Some ns"
    and "get_profile_map s pa = Some pm" and "get_row_map s ma = Some (directReplyMap pm ds)"
  shows "assemble_group getTime dr nr pa ma c s
         = Some (CommentRow.extend (attachProfiles pm c)
                   (CommentWithReplies.fields (flatReplies getTime pm ds ns c)),
                 s @ group_cells getTime pm ds ns c)"
proof -
  from assms have c: "cell_at s dr = Some (Rows ds)" "cell_at s nr = Some (Rows ns)"
    "cell_at s pa = Some (ProfileMap pm)" "cell_at s ma = Some (RowMap (directReplyMap pm ds))"
    by (simp_all add: get_cell)
  then have l: "dr < length s" "nr < length s" "pa < length s" "ma < length s"
    by (simp_all add: cell_at_less)
  show ?thesis
    using c l
    by (simp add: assemble_group_def alloc_def get_rows_def get_ids_def get_items_def
        get_profile_map_def get_row_map_def cell_at_append cell_at_Cons cell_at_Nil
        cell_at_update group_cells_def flatReplies_def nested_of_def direct_of_def Let_def
        list_update_append)
qed


lemma forEach_set_pure:
  assumes "get_rows s dr = Some ds" and "get_profile_map s pa = Some pm"
    and "get_row_map s ma = Some m0"
  shows "forEach_set k i dr pa ma s
         = Some (s[ma := RowMap (foldl (\<lambda>m r. m(id_c r \<mapsto> attachProfiles pm r)) m0
                                  (take k (drop i ds)))])"
  using assms
proof (induction k arbitrary: i s m0)
  case 0
  then have "cell_at s ma = Some (RowMap m0)" by (simp add: get_cell)
  then have "s[ma := RowMap m0] = s"
    by (simp add: cell_at_def list_update_same_conv split: if_splits)
  then show ?case by simp
next
  case (Suc k)
  from Suc.prems have c: "cell_at s dr = Some (Rows ds)" "cell_at s pa = Some (ProfileMap pm)"
    "cell_at s ma = Some (RowMap m0)"
    by (simp_all add: get_cell)
  then have ne: "dr \<noteq> ma" "pa \<noteq> ma" and l: "ma < length s"
    by (auto simp: cell_at_less)
  show ?case
  proof (cases "i < length ds")
    case True
    let ?m = "m0(id_c (ds ! i) \<mapsto> attachProfiles pm (ds ! i))"
    let ?s = "s[ma := RowMap ?m]"
    have r: "get_rows ?s dr = Some ds" "get_profile_map ?s pa = Some pm"
      "get_row_map ?s ma = Some ?m"
      using c ne l by (simp_all add: get_cell cell_at_update)
    have d: "take (Suc k) (drop i ds) = ds ! i # take k (drop (Suc i) ds)"
      using True by (simp add: Cons_nth_drop_Suc [symmetric])
    have "forEach_set (Suc k) i dr pa ma s = forEach_set k (Suc i) dr pa ma ?s"
      using Suc.prems True by simp
    also have "\<dots> = Some (?s[ma := RowMap (foldl (\<lambda>m r. m(id_c r \<mapsto> attachProfiles pm r)) ?m
                                  (take k (drop (Suc i) ds)))])"
      by (rule Suc.IH [OF r])
    finally show ?thesis
      by (simp only: d foldl_Cons list_update_overwrite)
  next
    case False
    have "forEach_set (Suc k) i dr pa ma s = forEach_set k (Suc i) dr pa ma s"
      using Suc.prems False by simp
    also have "\<dots> = Some (s[ma := RowMap (foldl (\<lambda>m r. m(id_c r \<mapsto> attachProfiles pm r)) m0
                                  (take k (drop (Suc i) ds)))])"
      by (rule Suc.IH [OF Suc.prems])
    finally show ?thesis
      using False by simp
  qed
qed

lemma map_groups_pure:
  assumes "get_rows s la = Some cs" and "get_rows s dr = Some ds" and "get_rows s nr = Some ns"
    and "get_profile_map s pa = Some pm" and "get_row_map s ma = Some (directReplyMap pm ds)"
  shows "\<exists>ext. map_groups k i getTime la dr nr pa ma s
           = Some (withReplies getTime pm (take k (drop i cs)) ds ns, s @ ext)"
  using assms
proof (induction k arbitrary: i s)
  case 0
  then show ?case by (simp add: withReplies_def)
next
  case (Suc k)
  show ?case
  proof (cases "i < length cs")
    case True
    let ?s = "s @ group_cells getTime pm ds ns (cs ! i)"
    have g: "assemble_group getTime dr nr pa ma (cs ! i) s
             = Some (CommentRow.extend (attachProfiles pm (cs ! i))
                       (CommentWithReplies.fields (flatReplies getTime pm ds ns (cs ! i))), ?s)"
      by (rule assemble_group_pure [OF Suc.prems(2-5)])
    have r: "get_rows ?s la = Some cs" "get_rows ?s dr = Some ds" "get_rows ?s nr = Some ns"
      "get_profile_map ?s pa = Some pm" "get_row_map ?s ma = Some (directReplyMap pm ds)"
      using Suc.prems by (simp_all add: get_appends)
    from Suc.IH [OF r, of "Suc i"] obtain ext
      where e: "map_groups k (Suc i) getTime la dr nr pa ma ?s
                = Some (withReplies getTime pm (take k (drop (Suc i) cs)) ds ns, ?s @ ext)"
      by blast
    have d: "take (Suc k) (drop i cs) = cs ! i # take k (drop (Suc i) cs)"
      using True by (simp add: Cons_nth_drop_Suc [symmetric])
    have "map_groups (Suc k) i getTime la dr nr pa ma s
          = Some (withReplies getTime pm (take (Suc k) (drop i cs)) ds ns,
                  s @ (group_cells getTime pm ds ns (cs ! i) @ ext))"
      using Suc.prems(1) True g e by (simp add: d withReplies_def)
    then show ?thesis by blast
  next
    case False
    from Suc.IH [OF Suc.prems, of "Suc i"] obtain ext
      where "map_groups k (Suc i) getTime la dr nr pa ma s
                = Some (withReplies getTime pm (take k (drop (Suc i) cs)) ds ns, s @ ext)"
      by blast
    then have "map_groups (Suc k) i getTime la dr nr pa ma s
          = Some (withReplies getTime pm (take (Suc k) (drop i cs)) ds ns, s @ ext)"
      using Suc.prems(1) False by (simp add: withReplies_def)
    then show ?thesis by blast
  qed
qed

lemma withReplies_store_pure:
  assumes "get_rows s la = Some cs" and "get_rows s dr = Some ds" and "get_rows s nr = Some ns"
    and "get_profile_map s pa = Some pm"
  shows "\<exists>ext. withReplies_store getTime la dr nr pa s
           = Some (length (s @ ext), s @ ext @ [Groups (withReplies getTime pm cs ds ns)])"
proof -
  let ?s1 = "s @ [RowMap Map.empty]"
  let ?s2 = "s @ [RowMap (directReplyMap pm ds)]"
  have r1: "get_rows ?s1 dr = Some ds" "get_profile_map ?s1 pa = Some pm"
    using assms by (simp_all add: get_appends)
  have m1: "get_row_map ?s1 (length s) = Some Map.empty"
    by (simp add: get_cell cell_at_append cell_at_Cons)
  have f: "forEach_set (length ds) 0 dr pa (length s) ?s1 = Some ?s2"
    using forEach_set_pure [OF r1 m1, of "length ds" 0]
    by (simp add: directReplyMap_def)
  have r2: "get_rows ?s2 la = Some cs" "get_rows ?s2 dr = Some ds" "get_rows ?s2 nr = Some ns"
    "get_profile_map ?s2 pa = Some pm"
    using assms by (simp_all add: get_appends)
  have m2: "get_row_map ?s2 (length s) = Some (directReplyMap pm ds)"
    by (simp add: get_cell cell_at_append cell_at_Cons)
  from map_groups_pure [OF r2 m2, of "length cs" 0 getTime] obtain ext
    where e: "map_groups (length cs) 0 getTime la dr nr pa (length s) ?s2
              = Some (withReplies getTime pm cs ds ns, ?s2 @ ext)"
    by auto
  have "withReplies_store getTime la dr nr pa s
        = Some (length (s @ (RowMap (directReplyMap pm ds) # ext)),
                s @ (RowMap (directReplyMap pm ds) # ext)
                  @ [Groups (withReplies getTime pm cs ds ns)])"
    using r1(1) f r2(1) e by (simp add: withReplies_store_def alloc_def)
  then show ?thesis by blast
qed

text \<open>
  Claim C4. Take two stores that hold the same top-level comments, direct replies,
  nested replies, profile lookup and liked identifiers, at any addresses. Both runs of
  the assembly return; the arrays they return hold the same groups, those of the
  function \<open>withReplies\<close> of the contents; and each run leaves every cell of its store as
  it was, the five inputs among them, and only appends new cells.
\<close>

theorem assembly_pure:
  assumes "get_rows s la = Some cs" and "get_rows s dr = Some ds" and "get_rows s nr = Some ns"
    and "get_profile_map s pa = Some pm" and "cell_at s liked_a = Some (IdSet likedIds)"
    and "get_rows s' la' = Some cs" and "get_rows s' dr' = Some ds"
    and "get_rows s' nr' = Some ns" and "get_profile_map s' pa' = Some pm"
    and "cell_at s' liked_a' = Some (IdSet likedIds)"
  shows "\<exists>a t a' t'.
           withReplies_store getTime la dr nr pa s = Some (a, t)
         \<and> withReplies_store getTime la' dr' nr' pa' s' = Some (a', t')
         \<and> cell_at t a = Some (Groups (withReplies getTime pm cs ds ns))
         \<and> cell_at t' a' = cell_at t a
         \<and> take (length s) t = s \<and> take (length s') t' = s'
         \<and> get_rows t la = Some cs \<and> get_rows t dr = Some ds \<and> get_rows t nr = Some ns
         \<and> get_profile_map t pa = Some pm \<and> cell_at t liked_a = Some (IdSet likedIds)"
proof -
  from withReplies_store_pure [OF assms(1-4), of getTime] obtain ext
    where r: "withReplies_store getTime la dr nr pa s
              = Some (length (s @ ext), s @ ext @ [Groups (withReplies getTime pm cs ds ns)])"
    by blast
  from withReplies_store_pure [OF assms(6-9), of getTime] obtain ext'
    where r': "withReplies_store getTime la' dr' nr' pa' s'
              = Some (length (s' @ ext'), s' @ ext' @ [Groups (withReplies getTime pm cs ds ns)])"
    by blast
  let ?t = "s @ ext @ [Groups (withReplies getTime pm cs ds ns)]"
  let ?t' = "s' @ ext' @ [Groups (withReplies getTime pm cs ds ns)]"
  have c: "cell_at ?t (length (s @ ext)) = Some (Groups (withReplies getTime pm cs ds ns))"
    "cell_at ?t' (length (s' @ ext')) = Some (Groups (withReplies getTime pm cs ds ns))"
    by (simp_all add: cell_at_def nth_append)
  have f: "get_rows ?t la = Some cs" "get_rows ?t dr = Some ds" "get_rows ?t nr = Some ns"
    "get_profile_map ?t pa = Some pm" "cell_at ?t liked_a = Some (IdSet likedIds)"
    using assms(1-5) by (simp_all add: get_appends cell_at_appends)
  from r r' c f show ?thesis by simp
qed

theorem assembly_pure_witness:
  "get_rows ex_store 0 = Some [ex_A] \<and> get_rows ex_store 1 = Some [ex_B, ex_C]
   \<and> get_rows ex_store 2 = Some [ex_D] \<and> get_profile_map ex_store 3 = Some ex_profiles
   \<and> cell_at ex_store 4 = Some (IdSet {str ''A''})
   \<and> get_rows ex_store' 5 = Some [ex_A] \<and> get_rows ex_store' 4 = Some [ex_B, ex_C]
   \<and> get_rows ex_store' 3 = Some [ex_D] \<and> get_profile_map ex_store' 1 = Some ex_profiles
   \<and> cell_at ex_store' 0 = Some (IdSet {str ''A''})
   \<and> (\<exists>a t a' t'.
         withReplies_store ex_getTime 0 1 2 3 ex_store = Some (a, t)
       \<and> withReplies_store ex_getTime 5 4 3 1 ex_store' = Some (a', t')
       \<and> cell_at t a
           = Some (Groups (withReplies ex_getTime ex_profiles [ex_A] [ex_B, ex_C] [ex_D]))
       \<and> cell_at t' a' = cell_at t a
       \<and> take (length ex_store) t = ex_store \<and> take (length ex_store') t' = ex_store')"
proof -
  have h: "get_rows ex_store 0 = Some [ex_A]" "get_rows ex_store 1 = Some [ex_B, ex_C]"
    "get_rows ex_store 2 = Some [ex_D]" "get_profile_map ex_store 3 = Some ex_profiles"
    "cell_at ex_store 4 = Some (IdSet {str ''A''})"
    by (simp_all add: ex_store_def get_rows_def get_profile_map_def cell_at_def)
  have h': "get_rows ex_store' 5 = Some [ex_A]" "get_rows ex_store' 4 = Some [ex_B, ex_C]"
    "get_rows ex_store' 3 = Some [ex_D]" "get_profile_map ex_store' 1 = Some ex_profiles"
    "cell_at ex_store' 0 = Some (IdSet {str ''A''})"
    by (simp_all add: ex_store'_def get_rows_def get_profile_map_def cell_at_def)
  from assembly_pure [OF h h', of ex_getTime] h h'
  show ?thesis by blast
qed

end
